theory Spec2Isabelle
  imports Main "HOL-Library.Word" "HOL-Library.AList"
begin

section \<open>JavaScript values\<close>

text \<open>
  The values that travel through request bodies, device metadata and JSON responses.
  An object is the list of its own enumerable properties in insertion order.
\<close>

type_synonym byte = "8 word"

datatype jsval =
    JNull
  | JBool bool
  | JNum int
  | JStr string
  | JArr "jsval list"
  | JObj "(string \<times> jsval) list"

type_synonym props = "(string \<times> jsval) list"

text \<open>JavaScript truthiness, as used by \<^verbatim>\<open>||\<close> and \<^verbatim>\<open>!\<close>.\<close>

fun truthy :: "jsval \<Rightarrow> bool" where
  "truthy JNull = False"
| "truthy (JBool b) = b"
| "truthy (JNum n) = (n \<noteq> 0)"
| "truthy (JStr s) = (s \<noteq> [])"
| "truthy (JArr _) = True"
| "truthy (JObj _) = True"

section \<open>Device identifiers (routes/auth.js, line 41)\<close>

text \<open>
  \<^verbatim>\<open>const normalizedDeviceId = deviceId.toUpperCase().replace(/[:-]/g, ':');\<close>

  A string is modelled by the bytes of its UTF-8 form, each code point by the bytes that
  encode it: an ASCII character is one byte below 128, any other code point is a byte
  from 192 on followed by continuation bytes (128 to 191). This is the form in which
  identifiers arrive in a request body and in which \<^verbatim>\<open>hmac.update\<close> reads a string.
  \<open>code_points\<close> cuts a string into its code points. A byte string that is not the UTF-8
  form of a string is cut at the same marks; it does not arise from a request.
\<close>

definition is_ascii :: "char \<Rightarrow> bool" where
  "is_ascii c = ((of_char c :: nat) < 128)"

definition is_continuation :: "char \<Rightarrow> bool" where
  "is_continuation c = (128 \<le> (of_char c :: nat) \<and> (of_char c :: nat) < 192)"

fun code_points :: "string \<Rightarrow> string list" where
  "code_points [] = []"
| "code_points (c # cs) =
     (if is_ascii c then [c] # code_points cs
      else (case code_points cs of
              [] \<Rightarrow> [[c]]
            | [] # gs \<Rightarrow> [c] # gs
            | (b # g) # gs \<Rightarrow>
                if is_continuation b then (c # b # g) # gs else [c] # (b # g) # gs))"

text \<open>
  \<^verbatim>\<open>String.prototype.toUpperCase\<close> replaces every code point by its uppercase mapping in
  the Unicode character database, which may be several code points. On ASCII the mapping
  is known: the letters a..z go to A..Z and every other character stays. For the code
  points beyond ASCII the mapping is a table of the runtime, taken as the parameter \<open>U\<close>:
  from the bytes of one code point to the bytes of its uppercase form.
\<close>

definition toUpperCase_char :: "char \<Rightarrow> char" where
  "toUpperCase_char c =
     (let n = (of_char c :: nat) in if 97 \<le> n \<and> n \<le> 122 then char_of (n - 32) else c)"

definition toUpperCase_code_point :: "(string \<Rightarrow> string) \<Rightarrow> string \<Rightarrow> string" where
  "toUpperCase_code_point U g =
     (case g of
        [c] \<Rightarrow> if is_ascii c then [toUpperCase_char c] else U g
      | _ \<Rightarrow> U g)"

definition toUpperCase :: "(string \<Rightarrow> string) \<Rightarrow> string \<Rightarrow> string" where
  "toUpperCase U s = concat (map (toUpperCase_code_point U) (code_points s))"

text \<open>
  \<^verbatim>\<open>.replace(/[:-]/g, ':')\<close>: every character of the class \<^verbatim>\<open>[:-]\<close> becomes a colon. Both
  are ASCII characters, and in UTF-8 their bytes occur nowhere else.
\<close>

definition replace_separators :: "string \<Rightarrow> string" where
  "replace_separators s =
     map (\<lambda>c. if c = CHR '':'' \<or> c = CHR ''-'' then CHR '':'' else c) s"

definition normalizedDeviceId :: "(string \<Rightarrow> string) \<Rightarrow> string \<Rightarrow> string" where
  "normalizedDeviceId U deviceId = replace_separators (toUpperCase U deviceId)"

text \<open>
  What is known of the table \<open>U\<close> is stated about these two notions: the bytes of one
  code point beyond ASCII, and a string that does not begin in the middle of a code point.
\<close>

definition is_code_point :: "string \<Rightarrow> bool" where
  "is_code_point g =
     (case g of [] \<Rightarrow> False | c # cs \<Rightarrow> \<not> is_ascii c \<and> list_all is_continuation cs)"

definition starts_code_point :: "string \<Rightarrow> bool" where
  "starts_code_point s = (case s of [] \<Rightarrow> True | c # _ \<Rightarrow> \<not> is_continuation c)"

text \<open>
  The normalization as the specification words it: uppercase all characters, replace
  every \<^verbatim>\<open>-\<close> with \<^verbatim>\<open>:\<close>. The uppercase of an ASCII character is read off the two
  alphabets here, not computed from character codes.
\<close>

definition uppercase_letter :: "char \<Rightarrow> char" where
  "uppercase_letter c =
     (case map_of (zip ''abcdefghijklmnopqrstuvwxyz'' ''ABCDEFGHIJKLMNOPQRSTUVWXYZ'') c of
        Some u \<Rightarrow> u
      | None \<Rightarrow> c)"

definition normalize_spec :: "(string \<Rightarrow> string) \<Rightarrow> string \<Rightarrow> string" where
  "normalize_spec U raw =
     map (\<lambda>c. if c = CHR ''-'' then CHR '':'' else c)
       (concat (map (\<lambda>g. case g of
                            [c] \<Rightarrow> if is_ascii c then [uppercase_letter c] else U g
                          | _ \<Rightarrow> U g)
                  (code_points raw)))"

text \<open>
  Two strings are separator and case variants of each other when they agree character by
  character up to the choice between \<^verbatim>\<open>:\<close> and \<^verbatim>\<open>-\<close> and up to the case of the letters
  a..z.
\<close>

definition variant_char :: "char \<Rightarrow> char \<Rightarrow> bool" where
  "variant_char a b =
     (a = b
      \<or> ((a = CHR '':'' \<or> a = CHR ''-'') \<and> (b = CHR '':'' \<or> b = CHR ''-''))
      \<or> uppercase_letter a = uppercase_letter b)"

definition variants :: "string \<Rightarrow> string \<Rightarrow> bool" where
  "variants x y = list_all2 variant_char x y"

text \<open>The same relation between the code points of two strings.\<close>

definition variant_code_point :: "string \<Rightarrow> string \<Rightarrow> bool" where
  "variant_code_point g h =
     (g = h \<or> (\<exists>a b. g = [a] \<and> h = [b] \<and> is_ascii a \<and> is_ascii b \<and> variant_char a b))"

section \<open>Values supplied from outside the program\<close>

text \<open>
  What the environment hands to one call: the server-wide HMAC key
  (\<^verbatim>\<open>process.env.SERVER_SECRET\<close>), HMAC-SHA-256 itself (\<^verbatim>\<open>crypto.createHmac\<close>, a library
  function, taken as a parameter), the bytes the CSPRNG delivers, the clock, the external
  token issuer (\<^verbatim>\<open>admin.auth().createCustomToken\<close>: \<open>Inr\<close> a token, \<open>Inl\<close> the message
  of the error it rejects with), \<^verbatim>\<open>process.env.NODE_ENV\<close>, the uppercase table of the
  runtime for the code points beyond ASCII, and the message of the TypeError with which
  \<^verbatim>\<open>hmac.update\<close> refuses a value that is not a string.
\<close>

record env =
  SERVER_SECRET :: string
  hmac_sha256 :: "string \<Rightarrow> string \<Rightarrow> byte list"
  random_byte :: "nat \<Rightarrow> byte"
  now_iso :: string
  now_ms :: int
  createCustomToken :: "string \<Rightarrow> props \<Rightarrow> string + string"
  NODE_ENV :: "string option"
  unicode_upper :: "string \<Rightarrow> string"
  hmac_update_error :: "jsval \<Rightarrow> string"

section \<open>Secrets (models/device.js)\<close>

text \<open>\<^verbatim>\<open>crypto.randomBytes(n)\<close>: the first \<open>n\<close> bytes of the random source.\<close>

definition randomBytes :: "(nat \<Rightarrow> byte) \<Rightarrow> nat \<Rightarrow> byte list" where
  "randomBytes src n = map src [0..<n]"

text \<open>
  \<^verbatim>\<open>.toString('hex')\<close>: two lowercase hexadecimal digits for each byte. The digit table is
  only ever indexed with a nibble, which is below 16.
\<close>

definition hex_digit :: "nat \<Rightarrow> char" where
  "hex_digit n = ''0123456789abcdef'' ! n"

definition toString_hex :: "byte list \<Rightarrow> string" where
  "toString_hex bs =
     concat (map (\<lambda>b. [hex_digit (unat b div 16), hex_digit (unat b mod 16)]) bs)"

definition is_hex_char :: "char \<Rightarrow> bool" where
  "is_hex_char c = (c \<in> set ''0123456789abcdef'')"

text \<open>The errors the modelled code throws, with the \<^verbatim>\<open>message\<close> of each.\<close>

datatype error =
    AlreadyRegistered
  | NotFound
  | RangeError
  | TypeError string
  | UpstreamError string

fun message :: "error \<Rightarrow> string" where
  "message AlreadyRegistered = ''Device already registered''"
| "message NotFound = ''Device not found''"
| "message RangeError = ''Input buffers must have the same byte length''"
| "message (TypeError m) = m"
| "message (UpstreamError m) = m"

text \<open>
  \<^verbatim>\<open>crypto.timingSafeEqual(a, b)\<close> throws a RangeError when the two buffers differ in
  length, and otherwise tells whether they hold the same bytes.
\<close>

definition timingSafeEqual :: "byte list \<Rightarrow> byte list \<Rightarrow> error + bool" where
  "timingSafeEqual a b = (if length a \<noteq> length b then Inl RangeError else Inr (a = b))"

text \<open>
  Step 3 of \<^verbatim>\<open>verifyDevice\<close> (lines 377-412): both secrets are hashed with HMAC-SHA-256
  under the server key and the digests compared. The provided secret is whatever value the
  request carried; \<^verbatim>\<open>.update(providedSecret)\<close> throws a TypeError unless it is a string.
\<close>

definition verifySecret :: "env \<Rightarrow> jsval \<Rightarrow> string \<Rightarrow> error + bool" where
  "verifySecret e providedSecret storedSecret =
     (case providedSecret of
        JStr provided \<Rightarrow>
          (let hash1 = hmac_sha256 e (SERVER_SECRET e) provided;
               hash2 = hmac_sha256 e (SERVER_SECRET e) storedSecret
           in timingSafeEqual hash1 hash2)
      | _ \<Rightarrow> Inl (TypeError (hmac_update_error e providedSecret)))"

section \<open>The device registry (models/device.js)\<close>

text \<open>
  A device record as \<^verbatim>\<open>registerDevice\<close> builds it. \<open>revokedAt\<close> and \<open>revokeReason\<close> are
  properties a device only has once \<^verbatim>\<open>revokeDevice\<close> has set them. Timestamps are the
  strings that \<^verbatim>\<open>new Date().toISOString()\<close> returns, and \<open>status\<close> is the string the
  code compares with \<^verbatim>\<open>'active'\<close>.

  The arguments are typed as the code expects them: device ids, stored secrets and the
  revocation reason are strings, the metadata is an object; a request that sends a value
  of another type in their place is outside the model. The secret of a token request is
  any JSON value.
\<close>

record device =
  deviceId :: string
  secret :: string
  status :: string
  registeredAt :: string
  lastAuthAt :: "string option"
  authCount :: int
  metadata :: props
  revokedAt :: "string option"
  revokeReason :: "string option"

text \<open>
  \<^verbatim>\<open>this.devices\<close> is a plain object keyed by device id: the list of its own entries in
  insertion order (the order in which \<^verbatim>\<open>Object.keys\<close> lists keys that are not
  array indices). The file it is saved to is not part of the model: \<^verbatim>\<open>saveDevices\<close>
  catches every error, so it changes neither the in-memory registry nor the outcome of
  the operation that calls it.
\<close>

type_synonym registry = "(string \<times> device) list"

text \<open>
  A plain object also answers to the property names it inherits from
  \<^verbatim>\<open>Object.prototype\<close>; each of them holds a function or an object, which is truthy, is
  not a device and has no property \<^verbatim>\<open>status\<close>. The registry is the state of the model:
  what a call writes to such a builtin object is not tracked.
\<close>

definition Object_prototype_names :: "string list" where
  "Object_prototype_names =
     [''constructor'', ''__proto__'', ''hasOwnProperty'', ''isPrototypeOf'',
      ''propertyIsEnumerable'', ''toLocaleString'', ''toString'', ''valueOf'',
      ''__defineGetter__'', ''__defineSetter__'', ''__lookupGetter__'',
      ''__lookupSetter__'']"

datatype lookup = NoProperty | InheritedProperty | OwnProperty device

text \<open>\<^verbatim>\<open>this.devices[deviceId]\<close>\<close>

definition devices_get :: "registry \<Rightarrow> string \<Rightarrow> lookup" where
  "devices_get devices k =
     (case map_of devices k of
        Some d \<Rightarrow> OwnProperty d
      | None \<Rightarrow> if k \<in> set Object_prototype_names then InheritedProperty else NoProperty)"

text \<open>
  The \<^verbatim>\<open>metadata\<close> literal of \<^verbatim>\<open>registerDevice\<close> (lines 267-281): the two recognised keys
  with their default, then the spread of the caller's metadata over them.
\<close>

definition or_unknown :: "jsval option \<Rightarrow> jsval" where
  "or_unknown v = (case v of Some x \<Rightarrow> if truthy x then x else JStr ''unknown''
                   | None \<Rightarrow> JStr ''unknown'')"

definition spread :: "props \<Rightarrow> props \<Rightarrow> props" where
  "spread src target = fold (\<lambda>(k, v) acc. AList.update k v acc) src target"

definition metadata_literal :: "props \<Rightarrow> props" where
  "metadata_literal md =
     spread md
       [(''firmwareVersion'', or_unknown (map_of md ''firmwareVersion'')),
        (''hardwareVersion'', or_unknown (map_of md ''hardwareVersion''))]"

text \<open>
  \<^verbatim>\<open>registerDevice(deviceId, metadata = {})\<close> (lines 196-308). The result is the thrown
  error or the returned credentials \<^verbatim>\<open>{deviceId, secret}\<close> with the new registry.
\<close>

definition registerDevice ::
  "env \<Rightarrow> string \<Rightarrow> props option \<Rightarrow> registry \<Rightarrow> error + ((string \<times> string) \<times> registry)" where
  "registerDevice e devId md devices =
     (case devices_get devices devId of
        NoProperty \<Rightarrow>
          (let sec = toString_hex (randomBytes (random_byte e) 32);
               dev = \<lparr> deviceId = devId,
                       secret = sec,
                       status = ''active'',
                       registeredAt = now_iso e,
                       lastAuthAt = None,
                       authCount = 0,
                       metadata = metadata_literal (case md of None \<Rightarrow> [] | Some m \<Rightarrow> m),
                       revokedAt = None,
                       revokeReason = None \<rparr>
           in Inr ((devId, sec), AList.update devId dev devices))
      | _ \<Rightarrow> Inl AlreadyRegistered)"

text \<open>
  \<^verbatim>\<open>verifyDevice(deviceId, providedSecret)\<close> (lines 346-422) returns the device or
  \<^verbatim>\<open>null\<close>, and writes one line to the console that tells which step decided. Of all
  console output only this line is modelled.
\<close>

datatype auth_log = UnknownDevice | StatusNotActive | InvalidSecret | AuthVerified

definition verifyDevice ::
  "env \<Rightarrow> string \<Rightarrow> jsval \<Rightarrow> registry \<Rightarrow> error + (auth_log \<times> device option)" where
  "verifyDevice e devId providedSecret devices =
     (case devices_get devices devId of
        NoProperty \<Rightarrow> Inr (UnknownDevice, None)
      | InheritedProperty \<Rightarrow> Inr (StatusNotActive, None)
      | OwnProperty dev \<Rightarrow>
          if status dev \<noteq> ''active'' then Inr (StatusNotActive, None)
          else (case verifySecret e providedSecret (secret dev) of
                  Inl err \<Rightarrow> Inl err
                | Inr same \<Rightarrow>
                    if \<not> same then Inr (InvalidSecret, None)
                    else Inr (AuthVerified, Some dev)))"

text \<open>
  \<^verbatim>\<open>updateLastAuth(deviceId)\<close> (lines 439-453). Under an inherited name the writes land
  on a builtin object, not on an entry of the registry.
\<close>

definition updateLastAuth :: "env \<Rightarrow> string \<Rightarrow> registry \<Rightarrow> registry" where
  "updateLastAuth e devId devices =
     (case devices_get devices devId of
        OwnProperty dev \<Rightarrow>
          AList.update devId
            (dev\<lparr> lastAuthAt := Some (now_iso e), authCount := authCount dev + 1 \<rparr>) devices
      | _ \<Rightarrow> devices)"

text \<open>\<^verbatim>\<open>revokeDevice(deviceId, reason = '')\<close> (lines 476-500).\<close>

definition revokeDevice :: "env \<Rightarrow> string \<Rightarrow> string option \<Rightarrow> registry \<Rightarrow> error + registry" where
  "revokeDevice e devId reason devices =
     (case devices_get devices devId of
        NoProperty \<Rightarrow> Inl NotFound
      | InheritedProperty \<Rightarrow> Inr devices
      | OwnProperty dev \<Rightarrow>
          Inr (AList.update devId
                 (dev\<lparr> status := ''revoked'',
                       revokedAt := Some (now_iso e),
                       revokeReason := Some (case reason of None \<Rightarrow> [] | Some r \<Rightarrow> r) \<rparr>)
                 devices))"

text \<open>The own enumerable properties of a device object, in the order they were created.\<close>

definition device_props :: "device \<Rightarrow> props" where
  "device_props dev =
     [(''deviceId'', JStr (deviceId dev)),
      (''secret'', JStr (secret dev)),
      (''status'', JStr (status dev)),
      (''registeredAt'', JStr (registeredAt dev)),
      (''lastAuthAt'', (case lastAuthAt dev of None \<Rightarrow> JNull | Some t \<Rightarrow> JStr t)),
      (''authCount'', JNum (authCount dev)),
      (''metadata'', JObj (metadata dev))]
     @ (case revokedAt dev of None \<Rightarrow> [] | Some t \<Rightarrow> [(''revokedAt'', JStr t)])
     @ (case revokeReason dev of None \<Rightarrow> [] | Some r \<Rightarrow> [(''revokeReason'', JStr r)])"

text \<open>
  \<^verbatim>\<open>const { secret, ...safeDevice } = device\<close>: the rest pattern copies every own enumerable
  property but the one named.
\<close>

definition rest_without :: "string \<Rightarrow> props \<Rightarrow> props" where
  "rest_without name ps = filter (\<lambda>(k, v). k \<noteq> name) ps"

text \<open>
  \<^verbatim>\<open>getDevice(deviceId)\<close> (lines 515-527): \<open>None\<close> is \<^verbatim>\<open>null\<close>. A builtin reached under an
  inherited name has no enumerable property of its own.
\<close>

definition getDevice :: "string \<Rightarrow> registry \<Rightarrow> props option" where
  "getDevice devId devices =
     (case devices_get devices devId of
        NoProperty \<Rightarrow> None
      | InheritedProperty \<Rightarrow> Some (rest_without ''secret'' [])
      | OwnProperty dev \<Rightarrow> Some (rest_without ''secret'' (device_props dev)))"

text \<open>\<^verbatim>\<open>listDevices()\<close> (lines 537-546): \<^verbatim>\<open>Object.keys(this.devices).map(id => this.getDevice(id))\<close>\<close>

definition listDevices :: "registry \<Rightarrow> props option list" where
  "listDevices devices = map (\<lambda>k. getDevice k devices) (map fst devices)"

section \<open>The HTTP routes (routes/auth.js, routes/admin.js)\<close>

record response =
  statusCode :: nat
  body :: props

text \<open>
  \<^verbatim>\<open>!x\<close> for a field of the request body that may be absent: for a string field, and for
  a field of any JSON value.
\<close>

definition missing :: "string option \<Rightarrow> bool" where
  "missing x = (case x of None \<Rightarrow> True | Some s \<Rightarrow> s = [])"

definition falsy :: "jsval option \<Rightarrow> bool" where
  "falsy x = (case x of None \<Rightarrow> True | Some v \<Rightarrow> \<not> truthy v)"

text \<open>The claims embedded in the token (auth.js, lines 53-59).\<close>

definition additionalClaims :: "env \<Rightarrow> string \<Rightarrow> jsval option \<Rightarrow> device \<Rightarrow> props" where
  "additionalClaims e normalized firmwareVersion dev =
     [(''deviceType'', JStr ''esp8266''),
      (''deviceId'', JStr normalized),
      (''permissions'', JArr [JStr ''switches:read'', JStr ''switches:write''])]
     @ (case (case firmwareVersion of
                Some v \<Rightarrow> if truthy v then Some v else map_of (metadata dev) ''firmwareVersion''
              | None \<Rightarrow> map_of (metadata dev) ''firmwareVersion'') of
          None \<Rightarrow> []
        | Some v \<Rightarrow> [(''firmwareVersion'', v)])
     @ [(''authTimestamp'', JNum (now_ms e))]"

text \<open>The 401 branch of \<^verbatim>\<open>POST /auth/token\<close> (auth.js, lines 46-50).\<close>

definition invalid_credentials :: response where
  "invalid_credentials = \<lparr> statusCode = 401, body = [(''error'', JStr ''Invalid credentials'')] \<rparr>"

text \<open>The \<^verbatim>\<open>catch\<close> block of \<^verbatim>\<open>POST /auth/token\<close> (auth.js, lines 82-88).\<close>

definition token_failed :: "env \<Rightarrow> error \<Rightarrow> response" where
  "token_failed e err =
     \<lparr> statusCode = 500,
       body = (''error'', JStr ''Failed to create token'')
              # (if NODE_ENV e = Some ''development'' then [(''message'', JStr (message err))]
                 else []) \<rparr>"

text \<open>
  \<^verbatim>\<open>POST /auth/token\<close> (auth.js, lines 27-89), with the body fields \<^verbatim>\<open>deviceId\<close>,
  \<^verbatim>\<open>secret\<close> and \<^verbatim>\<open>firmwareVersion\<close>. It returns the response and the registry it leaves.
\<close>

definition post_auth_token ::
  "env \<Rightarrow> string option \<Rightarrow> jsval option \<Rightarrow> jsval option \<Rightarrow> registry \<Rightarrow> response \<times> registry" where
  "post_auth_token e devId sec firmwareVersion devices =
     (case (devId, sec) of
        (Some rawId, Some providedSecret) \<Rightarrow>
          if missing devId \<or> falsy sec
          then (\<lparr> statusCode = 400,
                  body = [(''error'', JStr ''Missing required fields: deviceId, secret'')] \<rparr>,
                devices)
          else
            (let normalized = normalizedDeviceId (unicode_upper e) rawId in
             case verifyDevice e normalized providedSecret devices of
               Inl err \<Rightarrow> (token_failed e err, devices)
             | Inr (_, None) \<Rightarrow> (invalid_credentials, devices)
             | Inr (_, Some dev) \<Rightarrow>
                 (case createCustomToken e normalized
                         (additionalClaims e normalized firmwareVersion dev) of
                    Inl msg \<Rightarrow> (token_failed e (UpstreamError msg), devices)
                  | Inr customToken \<Rightarrow>
                      (\<lparr> statusCode = 200,
                         body = [(''customToken'', JStr customToken),
                                 (''expiresIn'', JNum 3600),
                                 (''message'', JStr ''Authentication successful'')] \<rparr>,
                       updateLastAuth e normalized devices)))
      | _ \<Rightarrow>
          (\<lparr> statusCode = 400,
             body = [(''error'', JStr ''Missing required fields: deviceId, secret'')] \<rparr>,
           devices))"

text \<open>\<^verbatim>\<open>POST /admin/register\<close> (routes/admin.js, lines 15-33).\<close>

definition post_admin_register ::
  "env \<Rightarrow> string option \<Rightarrow> props option \<Rightarrow> registry \<Rightarrow> response \<times> registry" where
  "post_admin_register e devId md devices =
     (case devId of
        Some rawId \<Rightarrow>
          if missing devId
          then (\<lparr> statusCode = 400, body = [(''error'', JStr ''Missing deviceId'')] \<rparr>, devices)
          else (case registerDevice e rawId md devices of
                  Inl err \<Rightarrow>
                    (\<lparr> statusCode = 400, body = [(''error'', JStr (message err))] \<rparr>, devices)
                | Inr ((i, s), devices') \<Rightarrow>
                    (\<lparr> statusCode = 200,
                       body = [(''message'', JStr ''Device registered successfully''),
                               (''device'', JObj [(''deviceId'', JStr i), (''secret'', JStr s)])] \<rparr>,
                     devices'))
      | None \<Rightarrow>
          (\<lparr> statusCode = 400, body = [(''error'', JStr ''Missing deviceId'')] \<rparr>, devices))"

text \<open>\<^verbatim>\<open>POST /admin/revoke\<close> (routes/admin.js, lines 40-58).\<close>

definition post_admin_revoke ::
  "env \<Rightarrow> string option \<Rightarrow> string option \<Rightarrow> registry \<Rightarrow> response \<times> registry" where
  "post_admin_revoke e devId reason devices =
     (case devId of
        Some rawId \<Rightarrow>
          if missing devId
          then (\<lparr> statusCode = 400, body = [(''error'', JStr ''Missing deviceId'')] \<rparr>, devices)
          else (case revokeDevice e rawId reason devices of
                  Inl err \<Rightarrow>
                    (\<lparr> statusCode = 400, body = [(''error'', JStr (message err))] \<rparr>, devices)
                | Inr devices' \<Rightarrow>
                    (\<lparr> statusCode = 200,
                       body = [(''message'', JStr ''Device revoked successfully''),
                               (''deviceId'', JStr rawId)] \<rparr>,
                     devices'))
      | None \<Rightarrow>
          (\<lparr> statusCode = 400, body = [(''error'', JStr ''Missing deviceId'')] \<rparr>, devices))"

text \<open>\<^verbatim>\<open>GET /admin/devices\<close> (routes/admin.js, lines 65-71).\<close>

definition as_json :: "props option \<Rightarrow> jsval" where
  "as_json v = (case v of None \<Rightarrow> JNull | Some ps \<Rightarrow> JObj ps)"

definition get_admin_devices :: "registry \<Rightarrow> response" where
  "get_admin_devices devices =
     (let ds = listDevices devices
      in \<lparr> statusCode = 200,
           body = [(''count'', JNum (int (length ds))), (''devices'', JArr (map as_json ds))] \<rparr>)"

text \<open>\<^verbatim>\<open>GET /admin/devices/:deviceId\<close> (routes/admin.js, lines 78-86).\<close>

definition get_admin_device :: "string \<Rightarrow> registry \<Rightarrow> response" where
  "get_admin_device devId devices =
     (case getDevice devId devices of
        None \<Rightarrow> \<lparr> statusCode = 404, body = [(''error'', JStr ''Device not found'')] \<rparr>
      | Some view \<Rightarrow> \<lparr> statusCode = 200, body = [(''device'', JObj view)] \<rparr>)"

text \<open>
  One request to the server, and the server's run over a sequence of requests, each
  handled to its end before the next one starts and each in the environment it meets.
\<close>

datatype request =
    AuthToken "string option" "jsval option" "jsval option"
  | AdminRegister "string option" "props option"
  | AdminRevoke "string option" "string option"
  | AdminDevices
  | AdminDevice string

fun handle :: "env \<Rightarrow> request \<Rightarrow> registry \<Rightarrow> response \<times> registry" where
  "handle e (AuthToken devId sec fw) devices = post_auth_token e devId sec fw devices"
| "handle e (AdminRegister devId md) devices = post_admin_register e devId md devices"
| "handle e (AdminRevoke devId reason) devices = post_admin_revoke e devId reason devices"
| "handle e AdminDevices devices = (get_admin_devices devices, devices)"
| "handle e (AdminDevice devId) devices = (get_admin_device devId devices, devices)"

fun serve :: "(env \<times> request) list \<Rightarrow> registry \<Rightarrow> registry" where
  "serve [] devices = devices"
| "serve ((e, r) # rest) devices = serve rest (snd (handle e r devices))"

text \<open>A device is revoked when the registry holds it with the status \<^verbatim>\<open>'revoked'\<close>.\<close>

definition is_revoked :: "registry \<Rightarrow> string \<Rightarrow> bool" where
  "is_revoked devices k =
     (case devices_get devices k of OwnProperty dev \<Rightarrow> status dev = ''revoked'' | _ \<Rightarrow> False)"

section \<open>A concrete environment\<close>

text \<open>
  An environment on which the definitions can be evaluated: a stand-in for the keyed hash
  with 32-byte digests (the bytes of key and message, zero-padded), a counting random
  source, a fixed clock, an issuer that signs every request, and an uppercase table that
  knows two code points (U+00E9 goes to U+00C9, U+00DF to SS), leaves every other code
  point as it is, and drops bytes that begin with a continuation byte and so are no code
  point.
\<close>

definition sample_upper :: "string \<Rightarrow> string" where
  "sample_upper g =
     (if g = [CHR 0xC3, CHR 0xA9] then [CHR 0xC3, CHR 0x89]
      else if g = [CHR 0xC3, CHR 0x9F] then ''SS''
      else (case g of [] \<Rightarrow> [] | c # _ \<Rightarrow> if is_continuation c then [] else g))"

definition sample_hmac :: "string \<Rightarrow> string \<Rightarrow> byte list" where
  "sample_hmac key msg = take 32 (map (\<lambda>c. of_nat (of_char c)) (key @ msg) @ replicate 32 0)"

definition sample_env :: env where
  "sample_env =
     \<lparr> SERVER_SECRET = ''k'',
       hmac_sha256 = sample_hmac,
       random_byte = (\<lambda>i. of_nat (17 * i)),
       now_iso = ''2024-01-15T10:30:00.000Z'',
       now_ms = 1705314600000,
       createCustomToken = (\<lambda>uid claims. Inr (''token:'' @ uid)),
       NODE_ENV = None,
       unicode_upper = sample_upper,
       hmac_update_error = (\<lambda>v. ''The data argument must be of type string'') \<rparr>"

text \<open>
  The device that \<open>registerDevice\<close> creates in this environment for
  \<^verbatim>\<open>AA:BB:CC:DD:EE:FF\<close>, the registry that holds it alone, that registry after the
  device has been revoked, and a registry with a second device.
\<close>

definition sample_secret :: string where
  "sample_secret = ''00112233445566778899aabbccddeeff102132435465768798a9bacbdcedfe0f''"

definition sample_device :: device where
  "sample_device =
     \<lparr> deviceId = ''AA:BB:CC:DD:EE:FF'',
       secret = sample_secret,
       status = ''active'',
       registeredAt = ''2024-01-15T10:30:00.000Z'',
       lastAuthAt = None,
       authCount = 0,
       metadata = [(''firmwareVersion'', JStr ''unknown''), (''hardwareVersion'', JStr ''unknown'')],
       revokedAt = None,
       revokeReason = None \<rparr>"

definition sample_registry :: registry where
  "sample_registry = [(''AA:BB:CC:DD:EE:FF'', sample_device)]"

definition revoked_registry :: registry where
  "revoked_registry =
     [(''AA:BB:CC:DD:EE:FF'',
       sample_device\<lparr> status := ''revoked'',
                      revokedAt := Some ''2024-01-15T10:30:00.000Z'',
                      revokeReason := Some ''lost'' \<rparr>)]"

definition two_devices :: registry where
  "two_devices =
     [(''11:22:33:44:55:66'', sample_device\<lparr> deviceId := ''11:22:33:44:55:66'' \<rparr>),
      (''AA:BB:CC:DD:EE:FF'', sample_device)]"

text \<open>
  A run of the server: a token request with the device's own secret, two registration
  attempts and a second revocation.
\<close>

definition sample_trace :: "(env \<times> request) list" where
  "sample_trace =
     [(sample_env, AuthToken (Some ''aa-bb-cc-dd-ee-ff'') (Some (JStr sample_secret)) None),
      (sample_env, AdminRegister (Some ''AA:BB:CC:DD:EE:FF'') None),
      (sample_env, AdminRegister (Some ''11:22:33:44:55:66'') None),
      (sample_env, AdminRevoke (Some ''AA:BB:CC:DD:EE:FF'') (Some ''again''))]"

text \<open>The same environment with the issuer out of reach.\<close>

definition offline_env :: env where
  "offline_env = sample_env\<lparr> createCustomToken := (\<lambda>uid claims. Inl ''unavailable'') \<rparr>"

section \<open>Properties of the normalization\<close>

subsection \<open>Uppercase of ASCII characters\<close>

text \<open>The arithmetic on character codes and the two alphabets give the same uppercase.\<close>

lemma toUpperCase_char_is_uppercase_letter: "toUpperCase_char c = uppercase_letter c"
proof -
  have "\<forall>c. toUpperCase_char c = uppercase_letter c"
    by code_simp
  then show ?thesis ..
qed

lemma of_char_upper_shift:
  assumes "97 \<le> (of_char c :: nat)" and "(of_char c :: nat) \<le> 122"
  shows "(of_char (char_of (of_char c - 32 :: nat)) :: nat) = of_char c - 32"
proof -
  from assms have "(of_char c :: nat) - 32 < 256" by arith
  then show ?thesis by simp
qed

lemma toUpperCase_char_lower:
  assumes "97 \<le> (of_char c :: nat)" and "(of_char c :: nat) \<le> 122"
  shows "toUpperCase_char c = char_of (of_char c - 32 :: nat)"
  using assms by (simp add: toUpperCase_char_def Let_def)

lemma toUpperCase_char_other:
  assumes "\<not> (97 \<le> (of_char c :: nat) \<and> (of_char c :: nat) \<le> 122)"
  shows "toUpperCase_char c = c"
  unfolding toUpperCase_char_def Let_def using assms by (simp only: if_False)

lemma toUpperCase_char_idem: "toUpperCase_char (toUpperCase_char c) = toUpperCase_char c"
proof (cases "97 \<le> (of_char c :: nat) \<and> (of_char c :: nat) \<le> 122")
  case True
  then have lo: "97 \<le> (of_char c :: nat)" and hi: "(of_char c :: nat) \<le> 122"
    by simp_all
  have n: "(of_char (char_of (of_char c - 32 :: nat)) :: nat) = of_char c - 32"
    using lo hi by (rule of_char_upper_shift)
  from True have "\<not> 97 \<le> (of_char c :: nat) - 32" by arith
  with n have "\<not> (97 \<le> (of_char (char_of (of_char c - 32 :: nat)) :: nat)
      \<and> (of_char (char_of (of_char c - 32 :: nat)) :: nat) \<le> 122)"
    by simp
  then have "toUpperCase_char (char_of (of_char c - 32 :: nat)) = char_of (of_char c - 32 :: nat)"
    by (rule toUpperCase_char_other)
  then show ?thesis
    by (simp only: toUpperCase_char_lower [OF lo hi])
next
  case False
  then show ?thesis
    by (simp add: toUpperCase_char_other)
qed

text \<open>An uppercased character with a code outside A..Z was that character already.\<close>

lemma toUpperCase_char_code_eq:
  assumes "(of_char (toUpperCase_char c) :: nat) = k" and "k < 65 \<or> 90 < k"
  shows "(of_char c :: nat) = k"
proof (cases "97 \<le> (of_char c :: nat) \<and> (of_char c :: nat) \<le> 122")
  case True
  then have lo: "97 \<le> (of_char c :: nat)" and hi: "(of_char c :: nat) \<le> 122"
    by simp_all
  have "(of_char (toUpperCase_char c) :: nat) = of_char c - 32"
    by (simp only: toUpperCase_char_lower [OF lo hi] of_char_upper_shift [OF lo hi])
  with assms lo hi show ?thesis by arith
next
  case False
  with assms show ?thesis by (simp add: toUpperCase_char_other)
qed

lemma toUpperCase_char_colon: "toUpperCase_char c = CHR '':'' \<longleftrightarrow> c = CHR '':''"
proof
  assume "toUpperCase_char c = CHR '':''"
  then have "(of_char (toUpperCase_char c) :: nat) = 58" by simp
  then have "(of_char c :: nat) = 58" by (rule toUpperCase_char_code_eq) simp
  then have "(of_char c :: nat) = of_char (CHR '':'')" by simp
  then show "c = CHR '':''" by (simp only: of_char_eq_iff)
next
  assume "c = CHR '':''"
  then show "toUpperCase_char c = CHR '':''" by (simp add: toUpperCase_char_def)
qed

lemma toUpperCase_char_dash: "toUpperCase_char c = CHR ''-'' \<longleftrightarrow> c = CHR ''-''"
proof
  assume "toUpperCase_char c = CHR ''-''"
  then have "(of_char (toUpperCase_char c) :: nat) = 45" by simp
  then have "(of_char c :: nat) = 45" by (rule toUpperCase_char_code_eq) simp
  then have "(of_char c :: nat) = of_char (CHR ''-'')" by simp
  then show "c = CHR ''-''" by (simp only: of_char_eq_iff)
next
  assume "c = CHR ''-''"
  then show "toUpperCase_char c = CHR ''-''" by (simp add: toUpperCase_char_def)
qed

lemma is_ascii_toUpperCase_char: "is_ascii (toUpperCase_char c) = is_ascii c"
proof (cases "97 \<le> (of_char c :: nat) \<and> (of_char c :: nat) \<le> 122")
  case True
  then have lo: "97 \<le> (of_char c :: nat)" and hi: "(of_char c :: nat) \<le> 122"
    by simp_all
  have "(of_char (toUpperCase_char c) :: nat) = of_char c - 32"
    by (simp only: toUpperCase_char_lower [OF lo hi] of_char_upper_shift [OF lo hi])
  with hi show ?thesis
    by (simp add: is_ascii_def)
next
  case False
  then show ?thesis by (simp add: toUpperCase_char_other)
qed

lemma ascii_not_continuation: "is_ascii c \<Longrightarrow> \<not> is_continuation c"
  by (simp add: is_ascii_def is_continuation_def)

text \<open>The cut into code points.\<close>

lemma code_points_nonempty: "[] \<notin> set (code_points s)"
  by (induction s) (auto split: list.splits)

lemma concat_code_points: "concat (code_points s) = s"
  by (induction s) (auto split: list.splits)

lemma code_points_eq_Nil: "code_points s = [] \<longleftrightarrow> s = []"
  by (cases s) (auto split: list.splits)

lemma hd_code_points: "s \<noteq> [] \<Longrightarrow> \<exists>g gs. code_points s = (hd s # g) # gs"
  by (cases s) (auto split: list.splits)

lemma code_points_segment:
  "g \<in> set (code_points s) \<Longrightarrow> (\<exists>c. g = [c] \<and> is_ascii c) \<or> is_code_point g"
proof (induction s arbitrary: g)
  case Nil
  then show ?case by simp
next
  case (Cons c cs)
  show ?case
  proof (cases "is_ascii c")
    case True
    with Cons show ?thesis by auto
  next
    case False
    show ?thesis
    proof (cases "code_points cs")
      case Nil
      with False Cons.prems show ?thesis by (simp add: is_code_point_def)
    next
      case (Cons h hs)
      note hh = this
      have hne: "h \<noteq> []" using code_points_nonempty [of cs] hh by auto
      then obtain b h' where h: "h = b # h'" by (cases h) auto
      have hseg: "(\<exists>c. h = [c] \<and> is_ascii c) \<or> is_code_point h"
        using Cons.IH [of h] hh by simp
      show ?thesis
      proof (cases "is_continuation b")
        case True
        with hseg h have "is_code_point h"
          by (auto simp: ascii_not_continuation)
        with True h have "is_code_point (c # h)"
          using False by (simp add: is_code_point_def)
        with Cons.prems Cons.IH hh h True False show ?thesis
          by auto
      next
        case nc: False
        with Cons.prems Cons.IH hh h False show ?thesis
          by (auto simp: is_code_point_def)
      qed
    qed
  qed
qed

lemma code_points_append:
  assumes "starts_code_point q"
  shows "code_points (p @ q) = code_points p @ code_points q"
proof (induction p)
  case Nil
  show ?case by simp
next
  case (Cons c p)
  show ?case
  proof (cases "is_ascii c")
    case True
    with Cons show ?thesis by simp
  next
    case False
    show ?thesis
    proof (cases p)
      case Nil
      show ?thesis
      proof (cases q)
        case Nil
        with \<open>p = []\<close> show ?thesis by simp
      next
        case (Cons b q')
        with assms have nb: "\<not> is_continuation b" by (simp add: starts_code_point_def)
        from hd_code_points [of q] Cons obtain g gs where "code_points q = (b # g) # gs"
          by auto
        with \<open>p = []\<close> False nb show ?thesis by simp
      qed
    next
      case (Cons b p')
      from hd_code_points [of p] Cons obtain g gs where "code_points p = (b # g) # gs"
        by auto
      with Cons.IH False show ?thesis by simp
    qed
  qed
qed

lemma toUpperCase_append:
  "starts_code_point q \<Longrightarrow> toUpperCase U (p @ q) = toUpperCase U p @ toUpperCase U q"
  by (simp add: toUpperCase_def code_points_append)

lemma starts_code_point_append:
  "starts_code_point p \<Longrightarrow> starts_code_point q \<Longrightarrow> starts_code_point (p @ q)"
  by (cases p) (simp_all add: starts_code_point_def)

lemma toUpperCase_concat_fixed:
  assumes "\<forall>p \<in> set ps. starts_code_point p \<and> toUpperCase U p = p"
  shows "starts_code_point (concat ps) \<and> toUpperCase U (concat ps) = concat ps"
  using assms
proof (induction ps)
  case Nil
  show ?case by (simp add: starts_code_point_def toUpperCase_def)
next
  case (Cons p ps)
  then have ih: "starts_code_point (concat ps)" "toUpperCase U (concat ps) = concat ps"
    and p: "starts_code_point p" "toUpperCase U p = p"
    by simp_all
  show ?case
    using ih p by (simp add: toUpperCase_append starts_code_point_append)
qed

lemma toUpperCase_idem:
  assumes "\<forall>g. is_code_point g \<longrightarrow> starts_code_point (U g) \<and> toUpperCase U (U g) = U g"
  shows "toUpperCase U (toUpperCase U s) = toUpperCase U s"
proof -
  have "starts_code_point (toUpperCase_code_point U g)
      \<and> toUpperCase U (toUpperCase_code_point U g) = toUpperCase_code_point U g"
    if "g \<in> set (code_points s)" for g
  proof -
    from code_points_segment [OF that] show ?thesis
    proof
      assume "\<exists>c. g = [c] \<and> is_ascii c"
      then obtain c where g: "g = [c]" and c: "is_ascii c" by auto
      then show ?thesis
        by (simp add: toUpperCase_code_point_def toUpperCase_def starts_code_point_def
            toUpperCase_char_idem is_ascii_toUpperCase_char ascii_not_continuation)
    next
      assume cp: "is_code_point g"
      then have "toUpperCase_code_point U g = U g"
        by (auto simp: toUpperCase_code_point_def is_code_point_def split: list.splits)
      with cp assms show ?thesis by simp
    qed
  qed
  then have "\<forall>p \<in> set (map (toUpperCase_code_point U) (code_points s)).
      starts_code_point p \<and> toUpperCase U p = p"
    by auto
  from toUpperCase_concat_fixed [OF this] show ?thesis
    by (simp add: toUpperCase_def)
qed


lemma replace_separators_simps:
  "replace_separators [] = []"
  "replace_separators (c # cs)
     = (if c = CHR '':'' \<or> c = CHR ''-'' then CHR '':'' else c) # replace_separators cs"
  "replace_separators (p @ q) = replace_separators p @ replace_separators q"
  by (simp_all add: replace_separators_def)

lemma replace_separators_concat:
  "replace_separators (concat ps) = concat (map replace_separators ps)"
  by (induction ps) (simp_all add: replace_separators_simps)

lemma separator_is_ascii: "c = CHR '':'' \<or> c = CHR ''-'' \<Longrightarrow> is_ascii c"
  by (auto simp: is_ascii_def)

lemma replace_separators_non_ascii:
  "\<forall>c \<in> set g. \<not> is_ascii c \<Longrightarrow> replace_separators g = g"
  by (induction g) (auto simp: replace_separators_simps separator_is_ascii)

lemma code_point_non_ascii: "is_code_point g \<Longrightarrow> \<forall>c \<in> set g. \<not> is_ascii c"
  by (cases g) (auto simp: is_code_point_def list_all_iff ascii_not_continuation)

text \<open>Replacing separators changes single ASCII characters only.\<close>

lemma code_points_replace_separators:
  "code_points (replace_separators s) = map replace_separators (code_points s)"
proof (induction s)
  case Nil
  show ?case by (simp add: replace_separators_simps)
next
  case (Cons c cs)
  show ?case
  proof (cases "is_ascii c")
    case True
    then have "is_ascii (if c = CHR '':'' \<or> c = CHR ''-'' then CHR '':'' else c)"
      by (simp add: is_ascii_def)
    with True Cons show ?thesis
      by (simp add: replace_separators_simps)
  next
    case False
    then have c: "\<not> (c = CHR '':'' \<or> c = CHR ''-'')"
      using separator_is_ascii by blast
    show ?thesis
    proof (cases "code_points cs")
      case Nil
      with Cons False c show ?thesis
        by (simp add: replace_separators_simps)
    next
      case (Cons h hs)
      note hh = this
      have "h \<noteq> []" using code_points_nonempty [of cs] hh by auto
      then obtain b h' where h: "h = b # h'" by (cases h) auto
      have cont: "is_continuation (if b = CHR '':'' \<or> b = CHR ''-'' then CHR '':'' else b)
                 = is_continuation b"
        using separator_is_ascii [of b] ascii_not_continuation [of b]
          ascii_not_continuation [of "CHR '':''"] separator_is_ascii [of "CHR '':''"]
        by auto
      from Cons.IH hh h have
        "code_points (replace_separators cs)
           = ((if b = CHR '':'' \<or> b = CHR ''-'' then CHR '':'' else b) # replace_separators h')
             # map replace_separators hs"
        by (simp add: replace_separators_simps)
      with hh h False c cont show ?thesis
        by (simp add: replace_separators_simps)
    qed
  qed
qed

lemma replace_upper_replace:
  "replace_separators (toUpperCase U (replace_separators s))
     = replace_separators (toUpperCase U s)"
proof -
  have "replace_separators (toUpperCase_code_point U (replace_separators g))
          = replace_separators (toUpperCase_code_point U g)"
    if "g \<in> set (code_points s)" for g
  proof -
    from code_points_segment [OF that] show ?thesis
    proof
      assume "\<exists>c. g = [c] \<and> is_ascii c"
      then obtain c where g: "g = [c]" and c: "is_ascii c" by auto
      have "is_ascii (CHR '':'')" by (simp add: is_ascii_def)
      with g c show ?thesis
        by (auto simp: toUpperCase_code_point_def replace_separators_simps
            toUpperCase_char_colon toUpperCase_char_dash)
    next
      assume "is_code_point g"
      then have "replace_separators g = g"
        by (simp add: replace_separators_non_ascii code_point_non_ascii)
      then show ?thesis by simp
    qed
  qed
  then show ?thesis
    by (simp add: toUpperCase_def code_points_replace_separators replace_separators_concat
        comp_def cong: map_cong)
qed

lemma normalizedDeviceId_idem:
  assumes "\<forall>g. is_code_point g \<longrightarrow> starts_code_point (U g) \<and> toUpperCase U (U g) = U g"
  shows "normalizedDeviceId U (normalizedDeviceId U x) = normalizedDeviceId U x"
  by (simp add: normalizedDeviceId_def replace_upper_replace toUpperCase_idem [OF assms])

lemma normalizedDeviceId_is_normalize_spec: "normalizedDeviceId U x = normalize_spec U x"
proof -
  have r: "replace_separators s = map (\<lambda>c. if c = CHR ''-'' then CHR '':'' else c) s" for s
    by (simp add: replace_separators_def)
  have "toUpperCase_code_point U
          = (\<lambda>g. case g of [c] \<Rightarrow> if is_ascii c then [uppercase_letter c] else U g | _ \<Rightarrow> U g)"
    by (rule ext)
       (simp add: toUpperCase_code_point_def toUpperCase_char_is_uppercase_letter
          split: list.splits)
  then show ?thesis
    by (simp add: normalizedDeviceId_def normalize_spec_def toUpperCase_def r)
qed

text \<open>On a string of ASCII characters the library table plays no part.\<close>

lemma code_points_ascii: "list_all is_ascii s \<Longrightarrow> code_points s = map (\<lambda>c. [c]) s"
  by (induction s) simp_all

lemma toUpperCase_ascii: "list_all is_ascii s \<Longrightarrow> toUpperCase U s = map toUpperCase_char s"
  by (induction s) (simp_all add: toUpperCase_def code_points_ascii toUpperCase_code_point_def)

lemma normalizedDeviceId_ascii:
  "list_all is_ascii s \<Longrightarrow>
     normalizedDeviceId U s = replace_separators (map toUpperCase_char s)"
  by (simp add: normalizedDeviceId_def toUpperCase_ascii)

subsection \<open>Separator and case variants\<close>

lemma is_ascii_uppercase_letter: "is_ascii (uppercase_letter c) = is_ascii c"
  by (simp add: toUpperCase_char_is_uppercase_letter [symmetric] is_ascii_toUpperCase_char)

lemma uppercase_letter_non_ascii: "\<not> is_ascii c \<Longrightarrow> uppercase_letter c = c"
  using toUpperCase_char_other [of c]
  by (simp add: toUpperCase_char_is_uppercase_letter [symmetric] is_ascii_def)

lemma variant_char_ascii:
  assumes "variant_char a b"
  shows "is_ascii a = is_ascii b"
  using assms is_ascii_uppercase_letter [of a] is_ascii_uppercase_letter [of b]
  by (auto simp: variant_char_def separator_is_ascii)

lemma variant_char_non_ascii:
  assumes "variant_char a b" and "\<not> is_ascii a"
  shows "a = b"
proof -
  from assms have nb: "\<not> is_ascii b" by (simp add: variant_char_ascii)
  from assms(1) show ?thesis
    unfolding variant_char_def
    using assms(2) nb separator_is_ascii [of a]
      uppercase_letter_non_ascii [OF assms(2)] uppercase_letter_non_ascii [OF nb]
    by auto
qed

lemma toUpperCase_char_separator:
  assumes "c = CHR '':'' \<or> c = CHR ''-''"
  shows "replace_separators [toUpperCase_char c] = [CHR '':'']"
proof -
  from assms have "toUpperCase_char c = CHR '':'' \<or> toUpperCase_char c = CHR ''-''"
    by (simp add: toUpperCase_char_colon toUpperCase_char_dash)
  then show ?thesis
    by (auto simp: replace_separators_simps)
qed

lemma variant_char_normal:
  assumes "variant_char a b"
  shows "replace_separators [toUpperCase_char a] = replace_separators [toUpperCase_char b]"
proof -
  from assms consider "a = b"
    | "(a = CHR '':'' \<or> a = CHR ''-'') \<and> (b = CHR '':'' \<or> b = CHR ''-'')"
    | "uppercase_letter a = uppercase_letter b"
    unfolding variant_char_def by blast
  then show ?thesis
  proof cases
    case 1
    then show ?thesis by simp
  next
    case 2
    then show ?thesis by (simp add: toUpperCase_char_separator)
  next
    case 3
    then show ?thesis by (simp add: toUpperCase_char_is_uppercase_letter)
  qed
qed

lemma variants_code_points:
  "list_all2 variant_char x y \<Longrightarrow> list_all2 variant_code_point (code_points x) (code_points y)"
proof (induction rule: list_all2_induct)
  case Nil
  show ?case by simp
next
  case (Cons a x b y)
  show ?case
  proof (cases "is_ascii a")
    case True
    with Cons have "is_ascii b" by (simp add: variant_char_ascii)
    with True Cons show ?thesis
      by (simp add: variant_code_point_def)
  next
    case False
    with Cons have ab: "a = b" by (simp add: variant_char_non_ascii)
    show ?thesis
    proof (cases "code_points x")
      case Nil
      with Cons.IH have "code_points y = []" by simp
      with Nil False ab show ?thesis
        by (simp add: variant_code_point_def)
    next
      case (Cons g gs)
      note gg = this
      with Cons.IH obtain h hs where hh: "code_points y = h # hs"
        and gh: "variant_code_point g h" and rest: "list_all2 variant_code_point gs hs"
        by (auto simp: list_all2_Cons1)
      have "g \<noteq> []" using code_points_nonempty [of x] gg by auto
      then obtain c g' where g: "g = c # g'" by (cases g) auto
      have "h \<noteq> []" using code_points_nonempty [of y] hh by auto
      then obtain d h' where h: "h = d # h'" by (cases h) auto
      show ?thesis
      proof (cases "is_continuation c")
        case True
        then have "\<not> is_ascii c" using ascii_not_continuation by blast
        with gh g h have "g = h"
          by (auto simp: variant_code_point_def)
        with gg hh g h True False ab have
          "code_points (a # x) = (a # g) # gs" "code_points (b # y) = (a # g) # hs"
          by simp_all
        moreover have "variant_code_point (a # g) (a # g)"
          by (simp add: variant_code_point_def)
        ultimately show ?thesis
          using rest by simp
      next
        case nc: False
        have "\<not> is_continuation d"
          using gh g h nc by (auto simp: variant_code_point_def ascii_not_continuation)
        with gg hh g h nc False ab have
          "code_points (a # x) = [a] # g # gs" "code_points (b # y) = [a] # h # hs"
          by simp_all
        moreover have "variant_code_point [a] [a]"
          by (simp add: variant_code_point_def)
        ultimately show ?thesis
          using rest gh by simp
      qed
    qed
  qed
qed

lemma variant_code_point_normal:
  assumes "variant_code_point g h"
  shows "replace_separators (toUpperCase_code_point U g)
           = replace_separators (toUpperCase_code_point U h)"
  using assms variant_char_normal
  by (auto simp: variant_code_point_def toUpperCase_code_point_def)

lemma variants_normalize:
  assumes "variants x y"
  shows "normalizedDeviceId U x = normalizedDeviceId U y"
proof -
  have "list_all2 variant_code_point gs hs \<Longrightarrow>
      concat (map (\<lambda>g. replace_separators (toUpperCase_code_point U g)) gs)
        = concat (map (\<lambda>g. replace_separators (toUpperCase_code_point U g)) hs)" for gs hs
    by (induction rule: list_all2_induct) (simp_all add: variant_code_point_normal)
  from this [OF variants_code_points] assms show ?thesis
    by (simp add: variants_def normalizedDeviceId_def toUpperCase_def
        replace_separators_concat comp_def)
qed

subsection \<open>The sample table\<close>

lemma code_points_continuations:
  "list_all is_continuation cs \<Longrightarrow> cs \<noteq> [] \<Longrightarrow> code_points cs = [cs]"
proof (induction cs)
  case Nil
  then show ?case by simp
next
  case (Cons b cs)
  then have nb: "\<not> is_ascii b" using ascii_not_continuation by auto
  show ?case
  proof (cases cs)
    case Nil
    with nb show ?thesis by simp
  next
    case (Cons b' cs')
    with Cons.prems Cons.IH have "code_points cs = [b' # cs']" and "is_continuation b'"
      by simp_all
    with nb Cons show ?thesis by simp
  qed
qed

lemma code_points_code_point: "is_code_point g \<Longrightarrow> code_points g = [g]"
proof -
  assume a: "is_code_point g"
  then obtain c cs where g: "g = c # cs" and c: "\<not> is_ascii c" and cs: "list_all is_continuation cs"
    by (cases g) (auto simp: is_code_point_def)
  show ?thesis
  proof (cases cs)
    case Nil
    with g c show ?thesis by simp
  next
    case (Cons b cs')
    with cs code_points_continuations [of cs] have "code_points cs = [b # cs']" "is_continuation b"
      by simp_all
    with g c Cons show ?thesis by simp
  qed
qed

lemma sample_upper_facts:
  "\<forall>g. is_code_point g \<longrightarrow>
     starts_code_point (sample_upper g) \<and> toUpperCase sample_upper (sample_upper g) = sample_upper g"
proof (intro allI impI)
  fix g assume cp: "is_code_point g"
  have e1: "toUpperCase sample_upper [CHR 0xC3, CHR 0x89] = [CHR 0xC3, CHR 0x89]"
    by code_simp
  have e2: "toUpperCase sample_upper ''SS'' = ''SS''"
    by code_simp
  have s1: "starts_code_point [CHR 0xC3, CHR 0x89]" "starts_code_point ''SS''" "starts_code_point []"
    by code_simp+
  have e0: "toUpperCase sample_upper [] = []"
    by (simp add: toUpperCase_def)
  from cp obtain c cs where g: "g = c # cs" by (cases g) (auto simp: is_code_point_def)
  show "starts_code_point (sample_upper g) \<and> toUpperCase sample_upper (sample_upper g) = sample_upper g"
  proof (cases "g = [CHR 0xC3, CHR 0xA9] \<or> g = [CHR 0xC3, CHR 0x9F] \<or> is_continuation c")
    case True
    with g e1 e2 e0 s1 show ?thesis
      by (auto simp: sample_upper_def)
  next
    case False
    with g have u: "sample_upper g = g" by (simp add: sample_upper_def)
    from cp have "toUpperCase_code_point sample_upper g = sample_upper g"
      by (auto simp: toUpperCase_code_point_def is_code_point_def split: list.splits)
    have "toUpperCase sample_upper g = g"
      unfolding toUpperCase_def code_points_code_point [OF cp] using \<open>toUpperCase_code_point sample_upper g = sample_upper g\<close> u
      by simp
    moreover have "starts_code_point g"
      using False g by (simp add: starts_code_point_def)
    ultimately show ?thesis
      using u by simp
  qed
qed

subsection \<open>The normalization of the token route\<close>

text \<open>
  Claim C3. The uppercase table \<open>U\<close> of the runtime maps a code point beyond ASCII to a
  string of whole code points that uppercasing leaves alone (the uppercase of an uppercase
  form is that form). Then, for every string \<open>x\<close>: the normalization of the token route
  computes what the specification describes (uppercase every character, then turn every
  \<^verbatim>\<open>-\<close> into \<^verbatim>\<open>:\<close>); as a function of the table and the string alone it is
  deterministic; it is idempotent; it maps any two separator and case variants to one
  value; and in particular \<^verbatim>\<open>5c-cf-7f-12-34-56\<close> and \<^verbatim>\<open>5C:CF:7F:12:34:56\<close> both go to
  \<^verbatim>\<open>5C:CF:7F:12:34:56\<close>.
\<close>

theorem normalization_idempotent_and_uniform:
  assumes "\<forall>g. is_code_point g \<longrightarrow> starts_code_point (U g) \<and> toUpperCase U (U g) = U g"
  shows "normalizedDeviceId U x = normalize_spec U x
       \<and> normalizedDeviceId U (normalizedDeviceId U x) = normalizedDeviceId U x
       \<and> (variants x y \<longrightarrow> normalizedDeviceId U x = normalizedDeviceId U y)
       \<and> normalizedDeviceId U ''5c-cf-7f-12-34-56'' = normalizedDeviceId U ''5C:CF:7F:12:34:56''
       \<and> normalizedDeviceId U ''5c-cf-7f-12-34-56'' = ''5C:CF:7F:12:34:56''"
proof -
  have a1: "list_all is_ascii ''5c-cf-7f-12-34-56''" and a2: "list_all is_ascii ''5C:CF:7F:12:34:56''"
    by (simp_all add: is_ascii_def)
  have "replace_separators (map toUpperCase_char ''5c-cf-7f-12-34-56'') = ''5C:CF:7F:12:34:56''"
    by code_simp
  then have e1: "normalizedDeviceId U ''5c-cf-7f-12-34-56'' = ''5C:CF:7F:12:34:56''"
    by (simp only: normalizedDeviceId_ascii [OF a1])
  have "replace_separators (map toUpperCase_char ''5C:CF:7F:12:34:56'') = ''5C:CF:7F:12:34:56''"
    by code_simp
  then have e2: "normalizedDeviceId U ''5C:CF:7F:12:34:56'' = ''5C:CF:7F:12:34:56''"
    by (simp only: normalizedDeviceId_ascii [OF a2])
  show ?thesis
    using normalizedDeviceId_is_normalize_spec [of U x] normalizedDeviceId_idem [OF assms, of x]
      variants_normalize [of x y U] e1 e2
    by simp
qed

text \<open>
  With the sample table: an identifier with two code points beyond ASCII, one of which
  grows to two letters, and a variant of it in the other case and separator.
\<close>

theorem normalization_idempotent_and_uniform_witness:
  "normalizedDeviceId sample_upper (''caf'' @ [CHR 0xC3, CHR 0xA9] @ ''-stra'' @ [CHR 0xC3, CHR 0x9F] @ ''e'')
     = ''CAF'' @ [CHR 0xC3, CHR 0x89] @ '':STRASSE''
 \<and> normalizedDeviceId sample_upper (''CAF'' @ [CHR 0xC3, CHR 0x89] @ '':STRASSE'')
     = ''CAF'' @ [CHR 0xC3, CHR 0x89] @ '':STRASSE''
 \<and> variants (''caf'' @ [CHR 0xC3, CHR 0xA9] @ ''-stra'' @ [CHR 0xC3, CHR 0x9F] @ ''e'')
             (''Caf'' @ [CHR 0xC3, CHR 0xA9] @ '':STRA'' @ [CHR 0xC3, CHR 0x9F] @ ''E'')
 \<and> normalizedDeviceId sample_upper (''Caf'' @ [CHR 0xC3, CHR 0xA9] @ '':STRA'' @ [CHR 0xC3, CHR 0x9F] @ ''E'')
     = ''CAF'' @ [CHR 0xC3, CHR 0x89] @ '':STRASSE''"
proof -
  let ?x = "''caf'' @ [CHR 0xC3, CHR 0xA9] @ ''-stra'' @ [CHR 0xC3, CHR 0x9F] @ ''e''"
  let ?y = "''Caf'' @ [CHR 0xC3, CHR 0xA9] @ '':STRA'' @ [CHR 0xC3, CHR 0x9F] @ ''E''"
  have v: "variants ?x ?y"
    by code_simp
  have e: "normalizedDeviceId sample_upper ?x = ''CAF'' @ [CHR 0xC3, CHR 0x89] @ '':STRASSE''"
    by code_simp
  from normalization_idempotent_and_uniform [OF sample_upper_facts, of ?x ?y]
  have i: "normalizedDeviceId sample_upper (normalizedDeviceId sample_upper ?x)
             = normalizedDeviceId sample_upper ?x"
    and u: "variants ?x ?y \<longrightarrow> normalizedDeviceId sample_upper ?x = normalizedDeviceId sample_upper ?y"
    by blast+
  from i have "normalizedDeviceId sample_upper (''CAF'' @ [CHR 0xC3, CHR 0x89] @ '':STRASSE'')
     = ''CAF'' @ [CHR 0xC3, CHR 0x89] @ '':STRASSE''"
    by (simp only: e)
  moreover from u v have "normalizedDeviceId sample_upper ?y
     = ''CAF'' @ [CHR 0xC3, CHR 0x89] @ '':STRASSE''"
    by (simp only: e [symmetric])
  ultimately show ?thesis
    using v e by blast
qed

section \<open>Properties of the registry\<close>

lemma devices_get_update:
  "devices_get (AList.update k v ds) k' = (if k' = k then OwnProperty v else devices_get ds k')"
  by (simp add: devices_get_def update_conv')

lemma devices_get_Own_iff: "devices_get ds k = OwnProperty d \<longleftrightarrow> map_of ds k = Some d"
  by (simp add: devices_get_def split: option.splits)

text \<open>The spellings of the sample identifier, under any uppercase table.\<close>

lemma normalize_dashed: "normalizedDeviceId U ''aa-bb-cc-dd-ee-ff'' = ''AA:BB:CC:DD:EE:FF''"
proof -
  have a: "list_all is_ascii ''aa-bb-cc-dd-ee-ff''"
    by (simp add: is_ascii_def)
  have "replace_separators (map toUpperCase_char ''aa-bb-cc-dd-ee-ff'') = ''AA:BB:CC:DD:EE:FF''"
    by code_simp
  then show ?thesis
    by (simp only: normalizedDeviceId_ascii [OF a])
qed

lemma normalize_lower: "normalizedDeviceId U ''aa:bb:cc:dd:ee:ff'' = ''AA:BB:CC:DD:EE:FF''"
proof -
  have a: "list_all is_ascii ''aa:bb:cc:dd:ee:ff''"
    by (simp add: is_ascii_def)
  have "replace_separators (map toUpperCase_char ''aa:bb:cc:dd:ee:ff'') = ''AA:BB:CC:DD:EE:FF''"
    by code_simp
  then show ?thesis
    by (simp only: normalizedDeviceId_ascii [OF a])
qed

lemma normalize_canonical: "normalizedDeviceId U ''AA:BB:CC:DD:EE:FF'' = ''AA:BB:CC:DD:EE:FF''"
proof -
  have a: "list_all is_ascii ''AA:BB:CC:DD:EE:FF''"
    by (simp add: is_ascii_def)
  have "replace_separators (map toUpperCase_char ''AA:BB:CC:DD:EE:FF'') = ''AA:BB:CC:DD:EE:FF''"
    by code_simp
  then show ?thesis
    by (simp only: normalizedDeviceId_ascii [OF a])
qed

lemma normalize_zeros: "normalizedDeviceId U ''00-00-00-00-00-00'' = ''00:00:00:00:00:00''"
proof -
  have a: "list_all is_ascii ''00-00-00-00-00-00''"
    by (simp add: is_ascii_def)
  have "replace_separators (map toUpperCase_char ''00-00-00-00-00-00'') = ''00:00:00:00:00:00''"
    by code_simp
  then show ?thesis
    by (simp only: normalizedDeviceId_ascii [OF a])
qed

lemma register_sample:
  "registerDevice sample_env ''AA:BB:CC:DD:EE:FF'' None []
     = Inr ((''AA:BB:CC:DD:EE:FF'', sample_secret), sample_registry)"
  by code_simp

lemma revoke_sample:
  "revokeDevice sample_env ''AA:BB:CC:DD:EE:FF'' (Some ''lost'') sample_registry
     = Inr revoked_registry"
  by code_simp

subsection \<open>Generated secrets\<close>

lemma hex_digit_is_hex: "n < 16 \<Longrightarrow> is_hex_char (hex_digit n)"
  by (simp add: is_hex_char_def hex_digit_def del: set_simps)

lemma length_toString_hex: "length (toString_hex bs) = 2 * length bs"
  by (induction bs) (simp_all add: toString_hex_def)

lemma toString_hex_chars: "c \<in> set (toString_hex bs) \<Longrightarrow> is_hex_char c"
proof -
  have "unat b div 16 < 16" for b :: byte
  proof -
    have "unat b < 256" using unsigned_less [of b] by simp
    then show ?thesis by arith
  qed
  moreover have "unat b mod 16 < 16" for b :: byte by simp
  ultimately show "c \<in> set (toString_hex bs) \<Longrightarrow> is_hex_char c"
    by (auto simp: toString_hex_def hex_digit_is_hex)
qed

lemma length_randomBytes: "length (randomBytes src n) = n"
  by (simp add: randomBytes_def)

subsection \<open>Registration\<close>

text \<open>
  Registration under an id that the registry object does not answer to, neither with an
  entry of its own nor with an inherited property: the call returns the id with a secret
  of 64 hexadecimal digits, and the registry then holds an active device that has never
  authenticated.
\<close>

lemma registerDevice_fresh:
  assumes "devices_get devices k = NoProperty"
  shows "\<exists>sec devices' dev.
           registerDevice e k md devices = Inr ((k, sec), devices')
         \<and> length sec = 64 \<and> (\<forall>c \<in> set sec. is_hex_char c)
         \<and> devices_get devices' k = OwnProperty dev
         \<and> deviceId dev = k \<and> secret dev = sec
         \<and> status dev = ''active'' \<and> authCount dev = 0 \<and> lastAuthAt dev = None"
  using assms
  by (simp add: registerDevice_def Let_def devices_get_update length_toString_hex
      length_randomBytes toString_hex_chars)

text \<open>
  Registering one and the same id string a second time fails, and the device of the first
  registration keeps its secret.
\<close>

lemma registerDevice_same_id_twice:
  assumes "registerDevice e1 k md1 devices = Inr ((k, sec), devices1)"
  shows "registerDevice e2 k md2 devices1 = Inl AlreadyRegistered
       \<and> (\<exists>dev. devices_get devices1 k = OwnProperty dev \<and> secret dev = sec)"
proof -
  from assms have fresh: "devices_get devices k = NoProperty"
    by (simp add: registerDevice_def split: lookup.splits)
  with assms obtain dev where "devices_get devices1 k = OwnProperty dev" and "secret dev = sec"
    by (auto simp: registerDevice_def Let_def devices_get_update)
  then show ?thesis
    by (simp add: registerDevice_def)
qed

text \<open>
  Claim C4, at the input it fails on. The empty registry holds no device named
  \<^verbatim>\<open>constructor\<close>, yet the existence check of \<open>registerDevice\<close> finds the property that
  every object inherits under that name, and the registration is refused as a duplicate.
\<close>

theorem registerDevice_refuses_inherited_name:
  "map_of ([] :: registry) ''constructor'' = None
 \<and> registerDevice e ''constructor'' md [] = Inl AlreadyRegistered
 \<and> post_admin_register e (Some ''constructor'') md []
     = (\<lparr> statusCode = 400, body = [(''error'', JStr ''Device already registered'')] \<rparr>, [])"
  by (simp add: post_admin_register_def missing_def registerDevice_def devices_get_def
      Object_prototype_names_def)

text \<open>
  Claim C1, at the input it fails on. \<^verbatim>\<open>aa:bb:cc:dd:ee:ff\<close> and \<^verbatim>\<open>AA:BB:CC:DD:EE:FF\<close>
  have the same canonical form, but the admin route registers under the id as it was
  sent: after the first registration the second one succeeds as well, and the registry
  holds two devices.
\<close>

theorem register_case_variants_both_succeed:
  "normalizedDeviceId U ''aa:bb:cc:dd:ee:ff'' = normalizedDeviceId U ''AA:BB:CC:DD:EE:FF''
 \<and> (\<exists>sec1 devices1 sec2 devices2.
       registerDevice e1 ''aa:bb:cc:dd:ee:ff'' md1 []
         = Inr ((''aa:bb:cc:dd:ee:ff'', sec1), devices1)
     \<and> registerDevice e2 ''AA:BB:CC:DD:EE:FF'' md2 devices1
         = Inr ((''AA:BB:CC:DD:EE:FF'', sec2), devices2)
     \<and> map fst devices2 = [''aa:bb:cc:dd:ee:ff'', ''AA:BB:CC:DD:EE:FF''])
 \<and> statusCode (fst (post_admin_register e2 (Some ''AA:BB:CC:DD:EE:FF'') md2
       (snd (post_admin_register e1 (Some ''aa:bb:cc:dd:ee:ff'') md1 [])))) = 200"
proof -
  have n: "normalizedDeviceId U ''aa:bb:cc:dd:ee:ff'' = normalizedDeviceId U ''AA:BB:CC:DD:EE:FF''"
    by (simp only: normalize_lower normalize_canonical)
  have g1: "devices_get [] ''aa:bb:cc:dd:ee:ff'' = NoProperty"
    by (simp add: devices_get_def Object_prototype_names_def)
  have g2: "devices_get [(''aa:bb:cc:dd:ee:ff'', d)] ''AA:BB:CC:DD:EE:FF'' = NoProperty" for d
    by (simp add: devices_get_def Object_prototype_names_def)
  show ?thesis
    by (simp add: n post_admin_register_def missing_def registerDevice_def Let_def g1 g2)
qed

text \<open>
  Claim C2, at the input it fails on. A device registered through the admin route as
  \<^verbatim>\<open>aa-bb-cc-dd-ee-ff\<close> is stored under that very string. The token route looks for
  \<^verbatim>\<open>AA:BB:CC:DD:EE:FF\<close>, so the device is refused with its own id and its own secret; and
  the admin reads and the revocation, which use the id as sent, do not find the device
  under its canonical form.
\<close>

theorem admin_routes_do_not_normalize:
  "\<exists>sec devices.
       registerDevice e1 ''aa-bb-cc-dd-ee-ff'' md [] = Inr ((''aa-bb-cc-dd-ee-ff'', sec), devices)
     \<and> post_auth_token e2 (Some ''aa-bb-cc-dd-ee-ff'') (Some (JStr sec)) fw devices
         = (invalid_credentials, devices)
     \<and> getDevice ''AA:BB:CC:DD:EE:FF'' devices = None
     \<and> revokeDevice e3 ''AA:BB:CC:DD:EE:FF'' reason devices = Inl NotFound"
proof -
  have g1: "devices_get [] ''aa-bb-cc-dd-ee-ff'' = NoProperty"
    by (simp add: devices_get_def Object_prototype_names_def)
  have g2: "devices_get [(''aa-bb-cc-dd-ee-ff'', d)] ''AA:BB:CC:DD:EE:FF'' = NoProperty" for d
    by (simp add: devices_get_def Object_prototype_names_def)
  have n: "normalizedDeviceId (unicode_upper e2) ''aa-bb-cc-dd-ee-ff'' = ''AA:BB:CC:DD:EE:FF''"
    by (rule normalize_dashed)
  have "length (toString_hex (randomBytes (random_byte e1) 32)) = 64"
    by (simp add: length_toString_hex length_randomBytes)
  then have s: "toString_hex (randomBytes (random_byte e1) 32) \<noteq> []"
    by auto
  show ?thesis
    by (simp add: registerDevice_def Let_def g1 g2 n s post_auth_token_def missing_def
        falsy_def verifyDevice_def getDevice_def revokeDevice_def)
qed

subsection \<open>Verification of a secret\<close>

lemma timingSafeEqual_same_length:
  "length a = length b \<Longrightarrow> timingSafeEqual a b = Inr (a = b)"
  by (simp add: timingSafeEqual_def)

lemma length_sample_hmac: "length (sample_hmac key msg) = 32"
  by (simp add: sample_hmac_def)

text \<open>
  Claim C5. HMAC-SHA-256 produces digests of 32 bytes. Then the comparison of a provided
  secret string with a stored one never throws: its result is \<open>Inr\<close> of a truth value, which is true
  exactly when the two keyed digests hold the same bytes, whatever the lengths of the two
  secrets. For an active device \<open>verifyDevice\<close> accordingly returns the device when the
  digests agree and \<^verbatim>\<open>null\<close> when they differ.
\<close>

theorem verifySecret_iff_digests_equal:
  assumes "\<forall>m. length (hmac_sha256 e (SERVER_SECRET e) m) = 32"
  shows "verifySecret e (JStr provided) stored =
           Inr (hmac_sha256 e (SERVER_SECRET e) provided = hmac_sha256 e (SERVER_SECRET e) stored)
       \<and> (devices_get devices k = OwnProperty dev \<and> status dev = ''active'' \<longrightarrow>
            verifyDevice e k (JStr provided) devices =
              Inr (if hmac_sha256 e (SERVER_SECRET e) provided
                       = hmac_sha256 e (SERVER_SECRET e) (secret dev)
                   then (AuthVerified, Some dev) else (InvalidSecret, None)))"
proof -
  have len: "length (hmac_sha256 e (SERVER_SECRET e) x) = length (hmac_sha256 e (SERVER_SECRET e) y)"
    for x y using assms by simp
  have vs: "verifySecret e (JStr x) y =
      Inr (hmac_sha256 e (SERVER_SECRET e) x = hmac_sha256 e (SERVER_SECRET e) y)" for x y
    by (simp add: verifySecret_def Let_def timingSafeEqual_same_length [OF len])
  show ?thesis
    by (simp add: vs verifyDevice_def)
qed

theorem verifySecret_iff_digests_equal_witness:
  "verifySecret sample_env (JStr ''abc'') ''abcd'' = Inr False
 \<and> verifySecret sample_env (JStr ''abc'') ''abc'' = Inr True
 \<and> verifyDevice sample_env ''AA:BB:CC:DD:EE:FF'' (JStr ''abc'') sample_registry
      = Inr (InvalidSecret, None)
 \<and> verifyDevice sample_env ''AA:BB:CC:DD:EE:FF'' (JStr sample_secret) sample_registry
      = Inr (AuthVerified, Some sample_device)"
proof -
  have h: "\<forall>m. length (hmac_sha256 sample_env (SERVER_SECRET sample_env) m) = 32"
    by (simp add: sample_env_def length_sample_hmac)
  have d1: "sample_hmac ''k'' ''abc'' \<noteq> sample_hmac ''k'' ''abcd''"
    by code_simp
  have d2: "sample_hmac ''k'' ''abc'' \<noteq> sample_hmac ''k'' sample_secret"
    by code_simp
  have g: "devices_get sample_registry ''AA:BB:CC:DD:EE:FF'' = OwnProperty sample_device"
    by (simp add: devices_get_def sample_registry_def)
  have a: "status sample_device = ''active''" and s: "secret sample_device = sample_secret"
    by (simp_all add: sample_device_def)
  from verifySecret_iff_digests_equal
         [OF h, of "''abc''" "''abcd''" sample_registry "''AA:BB:CC:DD:EE:FF''" sample_device]
       verifySecret_iff_digests_equal
         [OF h, of "''abc''" "''abc''" sample_registry "''AA:BB:CC:DD:EE:FF''" sample_device]
       verifySecret_iff_digests_equal
         [OF h, of sample_secret "''abc''" sample_registry "''AA:BB:CC:DD:EE:FF''" sample_device]
       d1 d2 g a s
  show ?thesis
    by (simp add: sample_env_def)
qed

subsection \<open>Revocation\<close>

lemma is_revoked_update:
  "is_revoked (AList.update k' v ds) k = (if k = k' then status v = ''revoked'' else is_revoked ds k)"
  by (simp add: is_revoked_def devices_get_update)

lemma registerDevice_keeps_revoked:
  assumes "is_revoked ds k" and "registerDevice e k' md ds = Inr (c, ds')"
  shows "is_revoked ds' k"
proof -
  from assms(2) have fresh: "devices_get ds k' = NoProperty"
    by (simp add: registerDevice_def split: lookup.splits)
  with assms(1) have "k \<noteq> k'" by (auto simp: is_revoked_def)
  with assms show ?thesis
    by (auto simp: registerDevice_def Let_def fresh is_revoked_update)
qed

lemma revokeDevice_keeps_revoked:
  assumes "is_revoked ds k" and "revokeDevice e k' reason ds = Inr ds'"
  shows "is_revoked ds' k"
  using assms
  by (auto simp: revokeDevice_def is_revoked_update split: lookup.splits)

lemma updateLastAuth_keeps_revoked:
  assumes "is_revoked ds k"
  shows "is_revoked (updateLastAuth e k' ds) k"
proof (cases "devices_get ds k'")
  case (OwnProperty dev)
  show ?thesis
  proof (cases "k = k'")
    case True
    with assms OwnProperty have "status dev = ''revoked''"
      by (simp add: is_revoked_def)
    with OwnProperty True show ?thesis
      by (simp add: updateLastAuth_def is_revoked_update)
  next
    case False
    with assms OwnProperty show ?thesis
      by (simp add: updateLastAuth_def is_revoked_update)
  qed
qed (use assms in \<open>simp_all add: updateLastAuth_def\<close>)

text \<open>The token route leaves the registry as it is or records one success in it.\<close>

lemma post_auth_token_state:
  "snd (post_auth_token e devId sec fw ds) = ds
 \<or> (\<exists>n. snd (post_auth_token e devId sec fw ds) = updateLastAuth e n ds)"
  by (auto simp: post_auth_token_def Let_def split: option.splits sum.splits prod.splits)

lemma handle_keeps_revoked:
  assumes "is_revoked ds k"
  shows "is_revoked (snd (handle e r ds)) k"
proof (cases r)
  case (AuthToken devId sec fw)
  with assms post_auth_token_state [of e devId sec fw ds] show ?thesis
    by (auto simp: updateLastAuth_keeps_revoked)
next
  case (AdminRegister devId md)
  with assms show ?thesis
    by (auto simp: post_admin_register_def registerDevice_keeps_revoked
        split: option.splits sum.splits)
next
  case (AdminRevoke devId reason)
  with assms show ?thesis
    by (auto simp: post_admin_revoke_def revokeDevice_keeps_revoked
        split: option.splits sum.splits)
qed (use assms in simp_all)

lemma serve_keeps_revoked: "is_revoked ds k \<Longrightarrow> is_revoked (serve trace ds) k"
proof (induction trace arbitrary: ds)
  case Nil
  then show ?case by simp
next
  case (Cons a trace)
  obtain e r where a: "a = (e, r)" by (cases a)
  from Cons.prems have "is_revoked (snd (handle e r ds)) k" by (rule handle_keeps_revoked)
  then have "is_revoked (serve trace (snd (handle e r ds))) k" by (rule Cons.IH)
  with a show ?case by simp
qed

lemma verifyDevice_revoked:
  "is_revoked ds k \<Longrightarrow> verifyDevice e k sec ds = Inr (StatusNotActive, None)"
  by (auto simp: is_revoked_def verifyDevice_def split: lookup.splits)

lemma post_auth_token_revoked:
  assumes "is_revoked ds (normalizedDeviceId (unicode_upper e) rawId)"
    and "rawId \<noteq> []" and "truthy sec"
  shows "post_auth_token e (Some rawId) (Some sec) fw ds = (invalid_credentials, ds)"
  using assms
  by (simp add: post_auth_token_def missing_def falsy_def Let_def verifyDevice_revoked)

text \<open>
  Claim C6. Let the registry hold a device under the key \<open>k\<close> with the status
  \<^verbatim>\<open>'revoked'\<close>. After any sequence of requests to the server, whatever the environment
  of each, the device is still revoked; \<open>verifyDevice\<close> rejects it at the status check
  for every secret, the stored one included; and every token request that names the
  device (its \<^verbatim>\<open>deviceId\<close> normalizes to \<open>k\<close>) and carries a secret, a string or any
  other truthy value, is answered \<^verbatim>\<open>401 Invalid credentials\<close> and changes nothing.
\<close>

theorem revoked_is_terminal:
  assumes "is_revoked devices k"
  shows "is_revoked (serve trace devices) k
       \<and> (\<forall>e sec. verifyDevice e k sec (serve trace devices) = Inr (StatusNotActive, None))
       \<and> (\<forall>e rawId sec fw.
            normalizedDeviceId (unicode_upper e) rawId = k \<and> rawId \<noteq> [] \<and> truthy sec \<longrightarrow>
            post_auth_token e (Some rawId) (Some sec) fw (serve trace devices)
              = (invalid_credentials, serve trace devices))"
proof -
  from assms have r: "is_revoked (serve trace devices) k" by (rule serve_keeps_revoked)
  then show ?thesis
    by (auto simp: verifyDevice_revoked post_auth_token_revoked)
qed

theorem revoked_is_terminal_witness:
  "is_revoked revoked_registry ''AA:BB:CC:DD:EE:FF''
 \<and> is_revoked (serve sample_trace revoked_registry) ''AA:BB:CC:DD:EE:FF''
 \<and> post_auth_token sample_env (Some ''aa-bb-cc-dd-ee-ff'') (Some (JStr sample_secret)) None
      (serve sample_trace revoked_registry)
    = (invalid_credentials, serve sample_trace revoked_registry)"
proof -
  have h: "is_revoked revoked_registry ''AA:BB:CC:DD:EE:FF''"
    by (simp add: is_revoked_def devices_get_def revoked_registry_def sample_device_def)
  have n: "normalizedDeviceId (unicode_upper sample_env) ''aa-bb-cc-dd-ee-ff''
             = ''AA:BB:CC:DD:EE:FF''"
    by (rule normalize_dashed)
  have s: "truthy (JStr sample_secret)"
    by (simp add: sample_secret_def)
  from revoked_is_terminal [OF h, of sample_trace] h n s show ?thesis
    by simp
qed

subsection \<open>The token route\<close>

lemma verify_sample:
  "verifyDevice e ''AA:BB:CC:DD:EE:FF'' (JStr sample_secret) sample_registry
     = Inr (AuthVerified, Some sample_device)"
  by (simp add: verifyDevice_def devices_get_def sample_registry_def sample_device_def
      verifySecret_def timingSafeEqual_def)

text \<open>
  Claim C7. When the credentials verify and the issuer rejects the call, the token route
  answers with the status 500 of its \<^verbatim>\<open>catch\<close> block and leaves the registry as it
  was, so neither \<open>lastAuthAt\<close> nor \<open>authCount\<close> of any device changes. And whenever
  the route does change the registry, the credentials had verified, the issuer had returned
  a token, the answer is 200, and the change is exactly that of \<open>updateLastAuth\<close>.
\<close>

theorem issuer_failure_records_nothing:
  "(rawId \<noteq> [] \<and> truthy sec
     \<and> verifyDevice e (normalizedDeviceId (unicode_upper e) rawId) sec devices
         = Inr (l, Some dev)
     \<and> createCustomToken e (normalizedDeviceId (unicode_upper e) rawId)
          (additionalClaims e (normalizedDeviceId (unicode_upper e) rawId) fw dev) = Inl msg
    \<longrightarrow> post_auth_token e (Some rawId) (Some sec) fw devices
          = (token_failed e (UpstreamError msg), devices)
      \<and> statusCode (token_failed e (UpstreamError msg)) = 500)
 \<and> (snd (post_auth_token e devId' sec' fw' devices) \<noteq> devices
    \<longrightarrow> (\<exists>rawId' s' l' dev' tok.
           devId' = Some rawId' \<and> sec' = Some s'
         \<and> verifyDevice e (normalizedDeviceId (unicode_upper e) rawId') s' devices
             = Inr (l', Some dev')
         \<and> createCustomToken e (normalizedDeviceId (unicode_upper e) rawId')
              (additionalClaims e (normalizedDeviceId (unicode_upper e) rawId') fw' dev')
             = Inr tok
         \<and> statusCode (fst (post_auth_token e devId' sec' fw' devices)) = 200
         \<and> snd (post_auth_token e devId' sec' fw' devices)
              = updateLastAuth e (normalizedDeviceId (unicode_upper e) rawId') devices))"
proof (intro conjI impI)
  assume a: "rawId \<noteq> [] \<and> truthy sec
     \<and> verifyDevice e (normalizedDeviceId (unicode_upper e) rawId) sec devices
         = Inr (l, Some dev)
     \<and> createCustomToken e (normalizedDeviceId (unicode_upper e) rawId)
          (additionalClaims e (normalizedDeviceId (unicode_upper e) rawId) fw dev) = Inl msg"
  then show "post_auth_token e (Some rawId) (Some sec) fw devices
          = (token_failed e (UpstreamError msg), devices)"
    by (simp add: post_auth_token_def missing_def falsy_def Let_def)
  show "statusCode (token_failed e (UpstreamError msg)) = 500"
    by (simp add: token_failed_def)
next
  assume "snd (post_auth_token e devId' sec' fw' devices) \<noteq> devices"
  then show "\<exists>rawId' s' l' dev' tok.
           devId' = Some rawId' \<and> sec' = Some s'
         \<and> verifyDevice e (normalizedDeviceId (unicode_upper e) rawId') s' devices
             = Inr (l', Some dev')
         \<and> createCustomToken e (normalizedDeviceId (unicode_upper e) rawId')
              (additionalClaims e (normalizedDeviceId (unicode_upper e) rawId') fw' dev')
             = Inr tok
         \<and> statusCode (fst (post_auth_token e devId' sec' fw' devices)) = 200
         \<and> snd (post_auth_token e devId' sec' fw' devices)
              = updateLastAuth e (normalizedDeviceId (unicode_upper e) rawId') devices"
    by (auto simp: post_auth_token_def Let_def split: option.splits sum.splits prod.splits if_splits)
qed

theorem issuer_failure_records_nothing_witness:
  "post_auth_token offline_env (Some ''aa-bb-cc-dd-ee-ff'') (Some (JStr sample_secret)) None
     sample_registry
   = (\<lparr> statusCode = 500, body = [(''error'', JStr ''Failed to create token'')] \<rparr>,
      sample_registry)
 \<and> statusCode (fst (post_auth_token sample_env (Some ''aa-bb-cc-dd-ee-ff'')
      (Some (JStr sample_secret)) None sample_registry)) = 200
 \<and> snd (post_auth_token sample_env (Some ''aa-bb-cc-dd-ee-ff'') (Some (JStr sample_secret))
      None sample_registry)
   = [(''AA:BB:CC:DD:EE:FF'',
       sample_device\<lparr> lastAuthAt := Some ''2024-01-15T10:30:00.000Z'', authCount := 1 \<rparr>)]"
proof -
  have n1: "normalizedDeviceId (unicode_upper offline_env) ''aa-bb-cc-dd-ee-ff''
              = ''AA:BB:CC:DD:EE:FF''"
    and n2: "normalizedDeviceId (unicode_upper sample_env) ''aa-bb-cc-dd-ee-ff''
              = ''AA:BB:CC:DD:EE:FF''"
    by (rule normalize_dashed)+
  have s: "truthy (JStr sample_secret)"
    by (simp add: sample_secret_def)
  have v: "verifyDevice offline_env ''AA:BB:CC:DD:EE:FF'' (JStr sample_secret) sample_registry
             = Inr (AuthVerified, Some sample_device)"
    by (simp add: verify_sample)
  have c: "createCustomToken offline_env ''AA:BB:CC:DD:EE:FF'' claims = Inl ''unavailable''"
    for claims
    by (simp add: offline_env_def sample_env_def)
  have f: "token_failed offline_env (UpstreamError ''unavailable'')
             = \<lparr> statusCode = 500, body = [(''error'', JStr ''Failed to create token'')] \<rparr>"
    by (simp add: token_failed_def offline_env_def sample_env_def)
  have u: "updateLastAuth sample_env ''AA:BB:CC:DD:EE:FF'' sample_registry
             = [(''AA:BB:CC:DD:EE:FF'',
                 sample_device\<lparr> lastAuthAt := Some ''2024-01-15T10:30:00.000Z'',
                                authCount := 1 \<rparr>)]"
    by (simp add: updateLastAuth_def devices_get_def sample_registry_def sample_env_def
        sample_device_def)
  have c2: "createCustomToken sample_env uid claims = Inr (''token:'' @ uid)" for uid claims
    by (simp add: sample_env_def)
  have v2: "verifyDevice sample_env ''AA:BB:CC:DD:EE:FF'' (JStr sample_secret) sample_registry
             = Inr (AuthVerified, Some sample_device)"
    by (simp add: verify_sample)
  have p: "snd (post_auth_token sample_env (Some ''aa-bb-cc-dd-ee-ff'')
      (Some (JStr sample_secret)) None sample_registry)
        = updateLastAuth sample_env ''AA:BB:CC:DD:EE:FF'' sample_registry"
    using s by (simp add: post_auth_token_def missing_def falsy_def n2 v2 c2 Let_def)
  have changed: "snd (post_auth_token sample_env (Some ''aa-bb-cc-dd-ee-ff'')
      (Some (JStr sample_secret)) None sample_registry) \<noteq> sample_registry"
    by (simp only: p u) (simp add: sample_registry_def sample_device_def)
  from issuer_failure_records_nothing
         [of "''aa-bb-cc-dd-ee-ff''" "JStr sample_secret" offline_env sample_registry
             AuthVerified sample_device None "''unavailable''"
             "Some ''aa-bb-cc-dd-ee-ff''" "Some (JStr sample_secret)" None]
       issuer_failure_records_nothing
         [of "''aa-bb-cc-dd-ee-ff''" "JStr sample_secret" sample_env sample_registry
             AuthVerified sample_device None "''unavailable''"
             "Some ''aa-bb-cc-dd-ee-ff''" "Some (JStr sample_secret)" None]
       n1 n2 s v c f u p changed
  show ?thesis
    by auto
qed

text \<open>
  The ways in which \<open>verifyDevice\<close> returns \<^verbatim>\<open>null\<close>, each with its own log line, and the
  one way in which it throws instead.
\<close>

lemma verifyDevice_failure_reasons:
  "verifyDevice e k sec ds = Inr (l, None) \<longleftrightarrow>
     (l = UnknownDevice \<and> devices_get ds k = NoProperty)
   \<or> (l = StatusNotActive \<and> (devices_get ds k = InheritedProperty
         \<or> (\<exists>dev. devices_get ds k = OwnProperty dev \<and> status dev \<noteq> ''active'')))
   \<or> (l = InvalidSecret \<and> (\<exists>dev. devices_get ds k = OwnProperty dev \<and> status dev = ''active''
         \<and> verifySecret e sec (secret dev) = Inr False))"
  by (auto simp: verifyDevice_def split: lookup.splits sum.splits if_splits)

lemma verifyDevice_non_string:
  assumes "\<forall>s. sec \<noteq> JStr s"
  shows "verifyDevice e k sec ds =
           (case devices_get ds k of
              NoProperty \<Rightarrow> Inr (UnknownDevice, None)
            | InheritedProperty \<Rightarrow> Inr (StatusNotActive, None)
            | OwnProperty dev \<Rightarrow>
                if status dev \<noteq> ''active'' then Inr (StatusNotActive, None)
                else Inl (TypeError (hmac_update_error e sec)))"
  using assms
  by (cases sec) (simp_all add: verifyDevice_def verifySecret_def split: lookup.splits)

text \<open>
  Whenever \<open>verifyDevice\<close> returns \<^verbatim>\<open>null\<close>, for whichever of its reasons, the token
  route gives one and the same response: the status 401 with the body
  \<^verbatim>\<open>{error: 'Invalid credentials'}\<close>.
\<close>

lemma rejected_credentials_look_alike:
  assumes "rawId1 \<noteq> []" "truthy sec1" "rawId2 \<noteq> []" "truthy sec2"
    and "verifyDevice e1 (normalizedDeviceId (unicode_upper e1) rawId1) sec1 devices1
           = Inr (l1, None)"
    and "verifyDevice e2 (normalizedDeviceId (unicode_upper e2) rawId2) sec2 devices2
           = Inr (l2, None)"
  shows "fst (post_auth_token e1 (Some rawId1) (Some sec1) fw1 devices1)
           = fst (post_auth_token e2 (Some rawId2) (Some sec2) fw2 devices2)
       \<and> fst (post_auth_token e1 (Some rawId1) (Some sec1) fw1 devices1) = invalid_credentials
       \<and> statusCode invalid_credentials = 401
       \<and> body invalid_credentials = [(''error'', JStr ''Invalid credentials'')]"
  using assms
  by (simp add: post_auth_token_def missing_def falsy_def Let_def invalid_credentials_def)

text \<open>
  Claim C8, at the input it fails on. The request body carries the number 12345 as its
  \<^verbatim>\<open>secret\<close>. For the active device \<^verbatim>\<open>AA:BB:CC:DD:EE:FF\<close> the lookup and the status
  check pass, \<^verbatim>\<open>hmac.update\<close> throws, and the \<^verbatim>\<open>catch\<close> block answers 500. For the same
  device once revoked, and for an id that is not registered, \<open>verifyDevice\<close> returns
  \<^verbatim>\<open>null\<close> before the secret is touched and the answer is 401. So the response to one and
  the same wrong secret tells an active device from a revoked or unknown one.
\<close>

theorem non_string_secret_reveals_active_device:
  "post_auth_token e (Some ''AA:BB:CC:DD:EE:FF'') (Some (JNum 12345)) fw sample_registry
     = (token_failed e (TypeError (hmac_update_error e (JNum 12345))), sample_registry)
 \<and> statusCode (token_failed e (TypeError (hmac_update_error e (JNum 12345)))) = 500
 \<and> post_auth_token e (Some ''AA:BB:CC:DD:EE:FF'') (Some (JNum 12345)) fw revoked_registry
     = (invalid_credentials, revoked_registry)
 \<and> post_auth_token e (Some ''00-00-00-00-00-00'') (Some (JNum 12345)) fw sample_registry
     = (invalid_credentials, sample_registry)
 \<and> statusCode invalid_credentials = 401"
proof -
  have n: "normalizedDeviceId (unicode_upper e) ''AA:BB:CC:DD:EE:FF'' = ''AA:BB:CC:DD:EE:FF''"
    by (rule normalize_canonical)
  have z: "normalizedDeviceId (unicode_upper e) ''00-00-00-00-00-00'' = ''00:00:00:00:00:00''"
    by (rule normalize_zeros)
  have ns: "\<forall>s. JNum 12345 \<noteq> JStr s"
    by simp
  have g1: "devices_get sample_registry ''AA:BB:CC:DD:EE:FF'' = OwnProperty sample_device"
    by (simp add: devices_get_def sample_registry_def)
  have g2: "devices_get revoked_registry ''AA:BB:CC:DD:EE:FF''
              = OwnProperty (sample_device\<lparr> status := ''revoked'',
                      revokedAt := Some ''2024-01-15T10:30:00.000Z'',
                      revokeReason := Some ''lost'' \<rparr>)"
    by (simp add: devices_get_def revoked_registry_def)
  have g3: "devices_get sample_registry ''00:00:00:00:00:00'' = NoProperty"
    by (simp add: devices_get_def sample_registry_def Object_prototype_names_def)
  have a: "status sample_device = ''active''"
    by (simp add: sample_device_def)
  have v1: "verifyDevice e ''AA:BB:CC:DD:EE:FF'' (JNum 12345) sample_registry
              = Inl (TypeError (hmac_update_error e (JNum 12345)))"
    by (simp add: verifyDevice_non_string [OF ns] g1 a)
  have v2: "verifyDevice e ''AA:BB:CC:DD:EE:FF'' (JNum 12345) revoked_registry
              = Inr (StatusNotActive, None)"
    by (simp add: verifyDevice_non_string [OF ns] g2)
  have v3: "verifyDevice e ''00:00:00:00:00:00'' (JNum 12345) sample_registry
              = Inr (UnknownDevice, None)"
    by (simp add: verifyDevice_non_string [OF ns] g3)
  show ?thesis
    by (simp add: post_auth_token_def missing_def falsy_def Let_def n z v1 v2 v3
        token_failed_def invalid_credentials_def)
qed

subsection \<open>Safe reads\<close>

lemma rest_without_no_key: "name \<notin> fst ` set (rest_without name ps)"
  by (auto simp: rest_without_def)

lemma getDevice_no_secret:
  assumes "getDevice k devices = Some view"
  shows "''secret'' \<notin> fst ` set view"
proof -
  from assms obtain ps where "view = rest_without ''secret'' ps"
    by (auto simp: getDevice_def split: lookup.splits)
  then show ?thesis
    using rest_without_no_key [of "''secret''" ps] by simp
qed

lemma getDevice_own_key:
  assumes "k \<in> set (map fst devices)"
  shows "\<exists>view. getDevice k devices = Some view"
proof -
  from assms obtain d where "(k, d) \<in> set devices" by auto
  then obtain d' where "map_of devices k = Some d'"
    using weak_map_of_SomeI by fastforce
  then show ?thesis
    by (simp add: getDevice_def devices_get_def)
qed

text \<open>
  Claim C9. In every registry and for every id, a view returned by \<open>getDevice\<close> has no
  property named \<^verbatim>\<open>secret\<close>; and every element of the list returned by \<open>listDevices\<close>
  is such a view.
\<close>

theorem safe_reads_never_include_secret:
  "(\<forall>view. getDevice k devices = Some view \<longrightarrow> ''secret'' \<notin> fst ` set view)
 \<and> (\<forall>r \<in> set (listDevices devices). \<exists>view. r = Some view \<and> ''secret'' \<notin> fst ` set view)"
proof (intro conjI allI impI ballI)
  fix view assume "getDevice k devices = Some view"
  then show "''secret'' \<notin> fst ` set view" by (rule getDevice_no_secret)
next
  fix r assume "r \<in> set (listDevices devices)"
  then obtain k' where k': "k' \<in> set (map fst devices)" and r: "r = getDevice k' devices"
    by (auto simp: listDevices_def)
  from getDevice_own_key [OF k'] obtain view where v: "getDevice k' devices = Some view" ..
  with r getDevice_no_secret [OF v] show "\<exists>view. r = Some view \<and> ''secret'' \<notin> fst ` set view"
    by simp
qed

theorem safe_reads_never_include_secret_witness:
  "\<exists>view. getDevice ''AA:BB:CC:DD:EE:FF'' revoked_registry = Some view
        \<and> listDevices revoked_registry = [Some view]
        \<and> (''status'', JStr ''revoked'') \<in> set view
        \<and> (''secret'', JStr sample_secret) \<in> set (device_props (snd (hd revoked_registry)))
        \<and> ''secret'' \<notin> fst ` set view"
proof -
  obtain view where v: "getDevice ''AA:BB:CC:DD:EE:FF'' revoked_registry = Some view"
    by (simp add: getDevice_def devices_get_def revoked_registry_def)
  have l: "listDevices revoked_registry = [getDevice ''AA:BB:CC:DD:EE:FF'' revoked_registry]"
    by (simp add: listDevices_def revoked_registry_def)
  have st: "(''status'', JStr ''revoked'') \<in> set view"
    using v by (auto simp: getDevice_def devices_get_def revoked_registry_def rest_without_def
        device_props_def sample_device_def)
  have sec: "(''secret'', JStr sample_secret) \<in> set (device_props (snd (hd revoked_registry)))"
    by (simp add: revoked_registry_def device_props_def sample_device_def)
  from safe_reads_never_include_secret [of "''AA:BB:CC:DD:EE:FF''" revoked_registry] v
  have "''secret'' \<notin> fst ` set view"
    by blast
  with v l st sec show ?thesis
    by simp
qed

subsection \<open>The frame of a revocation\<close>

text \<open>
  Claim C10. Revoking a device that the registry holds succeeds, and in the registry it
  leaves, the device has the status \<^verbatim>\<open>'revoked'\<close>, the time of the call as \<open>revokedAt\<close>
  and the given reason as \<open>revokeReason\<close>, while its \<open>deviceId\<close>, \<open>secret\<close>,
  \<open>registeredAt\<close>, \<open>lastAuthAt\<close>, \<open>authCount\<close> and \<open>metadata\<close> are what they were. Every
  other key of the registry answers as before, and the keys and their order are unchanged.
\<close>

theorem revokeDevice_frame:
  assumes "devices_get devices k = OwnProperty dev"
  shows "\<exists>devices' dev'.
           revokeDevice e k reason devices = Inr devices'
         \<and> devices_get devices' k = OwnProperty dev'
         \<and> status dev' = ''revoked''
         \<and> revokedAt dev' = Some (now_iso e)
         \<and> revokeReason dev' = Some (case reason of None \<Rightarrow> [] | Some r \<Rightarrow> r)
         \<and> deviceId dev' = deviceId dev
         \<and> secret dev' = secret dev
         \<and> registeredAt dev' = registeredAt dev
         \<and> lastAuthAt dev' = lastAuthAt dev
         \<and> authCount dev' = authCount dev
         \<and> metadata dev' = metadata dev
         \<and> (\<forall>k'. k' \<noteq> k \<longrightarrow> devices_get devices' k' = devices_get devices k')
         \<and> map fst devices' = map fst devices"
proof -
  from assms have "map_of devices k = Some dev"
    by (simp add: devices_get_Own_iff)
  then have "(k, dev) \<in> set devices"
    by (rule map_of_SomeD)
  then have "k \<in> fst ` set devices"
    by force
  then have keys: "map fst (AList.update k v devices) = map fst devices" for v
    by (simp add: update_keys)
  show ?thesis
    using assms by (simp add: revokeDevice_def devices_get_update keys)
qed

theorem revokeDevice_frame_witness:
  "\<exists>devices'.
      revokeDevice sample_env ''AA:BB:CC:DD:EE:FF'' (Some ''lost'') two_devices = Inr devices'
    \<and> devices_get devices' ''AA:BB:CC:DD:EE:FF''
        = OwnProperty (sample_device\<lparr> status := ''revoked'',
                                      revokedAt := Some ''2024-01-15T10:30:00.000Z'',
                                      revokeReason := Some ''lost'' \<rparr>)
    \<and> devices_get devices' ''11:22:33:44:55:66''
        = OwnProperty (sample_device\<lparr> deviceId := ''11:22:33:44:55:66'' \<rparr>)
    \<and> map fst devices' = [''11:22:33:44:55:66'', ''AA:BB:CC:DD:EE:FF'']"
proof -
  have h: "devices_get two_devices ''AA:BB:CC:DD:EE:FF'' = OwnProperty sample_device"
    by (simp add: devices_get_def two_devices_def)
  have o: "devices_get two_devices ''11:22:33:44:55:66''
             = OwnProperty (sample_device\<lparr> deviceId := ''11:22:33:44:55:66'' \<rparr>)"
    by (simp add: devices_get_def two_devices_def)
  from revokeDevice_frame [OF h, of sample_env "Some ''lost''"]
  obtain devices' dev' where
    r: "revokeDevice sample_env ''AA:BB:CC:DD:EE:FF'' (Some ''lost'') two_devices = Inr devices'"
    and g: "devices_get devices' ''AA:BB:CC:DD:EE:FF'' = OwnProperty dev'"
    and f: "status dev' = ''revoked''" "revokedAt dev' = Some (now_iso sample_env)"
      "revokeReason dev' = Some ''lost''" "deviceId dev' = deviceId sample_device"
      "secret dev' = secret sample_device" "registeredAt dev' = registeredAt sample_device"
      "lastAuthAt dev' = lastAuthAt sample_device" "authCount dev' = authCount sample_device"
      "metadata dev' = metadata sample_device"
    and other: "\<forall>k'. k' \<noteq> ''AA:BB:CC:DD:EE:FF'' \<longrightarrow>
                  devices_get devices' k' = devices_get two_devices k'"
    and keys: "map fst devices' = map fst two_devices"
    by auto
  from f have "dev' = sample_device\<lparr> status := ''revoked'',
      revokedAt := Some ''2024-01-15T10:30:00.000Z'', revokeReason := Some ''lost'' \<rparr>"
    by (simp add: sample_env_def)
  moreover from other have "devices_get devices' ''11:22:33:44:55:66''
      = devices_get two_devices ''11:22:33:44:55:66''"
    by simp
  moreover have "map fst two_devices = [''11:22:33:44:55:66'', ''AA:BB:CC:DD:EE:FF'']"
    by (simp add: two_devices_def)
  ultimately show ?thesis
    using r g o keys by simp
qed

end
